theory Spec2Isabelle
  imports Main "HOL-Library.Word" "HOL-Library.Multiset"
begin

section \<open>Data model of the locate command\<close>

text \<open>
  Byte slices and Go strings are modelled as \<open>string\<close> (lists of 8-bit characters).
  Go's \<open>int\<close> holds slice offsets and lengths only, which never leave the range of the
  machine type, so it is modelled as \<open>int\<close>. Chunk identifiers are \<open>uint64\<close> and are
  modelled as 64-bit words, so that \<open>id++\<close> wraps as in the source.
\<close>

text \<open>
  The two run-time panics that the worker and the receiver can raise, and the fatal errors
  of the preparation of the patterns (\<open>checkError\<close> ends the program).
\<close>

datatype error =
    IndexOutOfRange
  | SliceBoundsOutOfRange
  | PatternNeeded
  | ReadError
  | NotASequence
  | CompileError

text \<open>
  A compiled \<open>*regexp.Regexp\<close> is used through \<open>FindAllSubmatchIndex(s, -1)\<close> only;
  it is represented by that function: the byte slice searched to the list of index lists
  (\<open>loc[0]\<close> and \<open>loc[1]\<close> are the bounds of the whole match).
\<close>

type_synonym Regexp = "string \<Rightarrow> int list list"

text \<open>
  Of a \<open>*fasta.FastaRecord\<close> the command reads the identifier \<open>record.ID\<close> (the
  field \<open>RecordID\<close>) and the bytes \<open>record.Seq.Seq\<close> (the field \<open>Seq'\<close>). Records
  are not changed once read, so the pointer is represented by the record itself.
\<close>

record FastaRecord =
  RecordID :: string
  Seq' :: string

record LocationInfo =
  Record :: FastaRecord
  PatternName :: string
  Strand :: int
  Locations :: "int list list"

record LocationChunk =
  ID :: "64 word"
  Data :: "LocationInfo list"

text \<open>The chunk handed to a worker by the FASTA reader (after its \<open>Err\<close> field was checked).\<close>

record FastaRecordChunk =
  ChunkID :: "64 word"
  Records :: "FastaRecord list"

text \<open>
  One line of the report: the seven arguments of the \<open>Sprintf\<close> call, in the order of
  the header \<open>seqID patternName pattern strand start end matched\<close>.
\<close>

record Row =
  col_seqID :: string
  col_patternName :: string
  col_pattern :: string
  col_strand :: int
  col_start :: int
  col_end :: int
  col_matched :: string

text \<open>
  The receiver's variables: \<open>id\<close> (named \<open>id'\<close> here), the map \<open>chunks\<close> and the lines
  written to \<open>outfh\<close>. The field \<open>flushed\<close> is a ghost variable: the chunks whose rows
  were written, in the order they were written.
\<close>

record receiver_state =
  id' :: "64 word"
  chunks :: "64 word \<rightharpoonup> LocationChunk"
  outfh :: "Row list"
  flushed :: "LocationChunk list"

section \<open>Run-time panics and library functions\<close>

fun and_then :: "error + 'a \<Rightarrow> ('a \<Rightarrow> error + 'b) \<Rightarrow> error + 'b" where
  "and_then (Inl e) f = Inl e"
| "and_then (Inr x) f = f x"

fun traverse :: "('a \<Rightarrow> error + 'b) \<Rightarrow> 'a list \<Rightarrow> error + 'b list" where
  "traverse f [] = Inr []"
| "traverse f (x # xs) =
     and_then (f x) (\<lambda>y. and_then (traverse f xs) (\<lambda>ys. Inr (y # ys)))"

text \<open>\<open>loc[i]\<close> panics when \<open>i\<close> is not below the length.\<close>

definition index :: "int list \<Rightarrow> nat \<Rightarrow> error + int" where
  "index loc i = (if i < length loc then Inr (loc ! i) else Inl IndexOutOfRange)"

text \<open>
  The slice expression \<open>s[lo:hi]\<close> panics unless \<open>0 \<le> lo \<le> hi \<le> cap(s)\<close>; the
  capacity of a sequence buffer is taken to be its length.
\<close>

definition slice' :: "string \<Rightarrow> int \<Rightarrow> int \<Rightarrow> error + string" where
  "slice' s lo hi =
     (if 0 \<le> lo \<and> lo \<le> hi \<and> hi \<le> int (length s)
      then Inr (take (nat (hi - lo)) (drop (nat lo) s))
      else Inl SliceBoundsOutOfRange)"

text \<open>
  Modelled from the spec: \<open>Seq.RevCom\<close> of the sequence library, whose code belongs
  to another repository. The reverse complement is the sequence read backwards with
  every base replaced by its partner; the partner table of the alphabet is the parameter
  \<open>pair\<close>.
\<close>

definition RevCom :: "(char \<Rightarrow> char) \<Rightarrow> string \<Rightarrow> string" where
  "RevCom pair s = map pair (rev s)"

text \<open>
  \<open>Seq.SubSeq(start, end)\<close> belongs to the same library; its code is not part of this
  repository. It is a parameter of the receiver, \<open>SubSeq\<close>: from the bytes of a sequence
  and the two positions to the bytes of the sequence it returns. It is taken to return
  for all positions; a property that depends on what it returns says so in a hypothesis.
\<close>

type_synonym sub_seq = "string \<Rightarrow> int \<Rightarrow> int \<Rightarrow> string"

section \<open>The receiver\<close>

text \<open>The body of the loop over \<open>locationInfo.Locations\<close>: the matched text and the line.\<close>

definition matched_seq ::
  "(char \<Rightarrow> char) \<Rightarrow> sub_seq \<Rightarrow> LocationInfo \<Rightarrow> int \<Rightarrow> int \<Rightarrow> error + string" where
  "matched_seq pair SubSeq locationInfo lo hi =
     (if Strand locationInfo = 1 then slice' (Seq' (Record locationInfo)) lo hi
      else Inr (RevCom pair (SubSeq (Seq' (Record locationInfo)) (lo + 1) hi)))"

definition location_row ::
  "(char \<Rightarrow> char) \<Rightarrow> sub_seq \<Rightarrow> (string \<rightharpoonup> string) \<Rightarrow> LocationInfo \<Rightarrow> int list \<Rightarrow> error + Row" where
  "location_row pair SubSeq patterns locationInfo loc =
     and_then (index loc 0) (\<lambda>lo.
     and_then (index loc 1) (\<lambda>hi.
     and_then (matched_seq pair SubSeq locationInfo lo hi) (\<lambda>s.
       Inr \<lparr>col_seqID = RecordID (Record locationInfo),
            col_patternName = PatternName locationInfo,
            col_pattern = (case patterns (PatternName locationInfo) of None \<Rightarrow> [] | Some p \<Rightarrow> p),
            col_strand = Strand locationInfo,
            col_start = lo + 1,
            col_end = hi,
            col_matched = s\<rparr>)))"

definition write_info ::
  "(char \<Rightarrow> char) \<Rightarrow> sub_seq \<Rightarrow> (string \<rightharpoonup> string) \<Rightarrow> LocationInfo \<Rightarrow> error + Row list" where
  "write_info pair SubSeq patterns locationInfo =
     traverse (location_row pair SubSeq patterns locationInfo) (Locations locationInfo)"

definition write_chunk ::
  "(char \<Rightarrow> char) \<Rightarrow> sub_seq \<Rightarrow> (string \<rightharpoonup> string) \<Rightarrow> LocationChunk \<Rightarrow> error + Row list" where
  "write_chunk pair SubSeq patterns chunk =
     and_then (traverse (write_info pair SubSeq patterns) (Data chunk)) (\<lambda>rs. Inr (concat rs))"

text \<open>
  The source repeats the same two nested loops at its three flush sites; \<open>flush\<close> is
  that block. A panic ends the program, so no state is returned with it.
\<close>

definition flush ::
  "(char \<Rightarrow> char) \<Rightarrow> sub_seq \<Rightarrow> (string \<rightharpoonup> string) \<Rightarrow> receiver_state \<Rightarrow> LocationChunk
     \<Rightarrow> error + receiver_state" where
  "flush pair SubSeq patterns st chunk =
     and_then (write_chunk pair SubSeq patterns chunk)
       (\<lambda>rows. Inr (st\<lparr>outfh := outfh st @ rows, flushed := flushed st @ [chunk]\<rparr>))"

text \<open>The loop \<open>for true { if chunk, ok := chunks[id]; ok { ... } else { break } }\<close>.\<close>

function cascade ::
  "(char \<Rightarrow> char) \<Rightarrow> sub_seq \<Rightarrow> (string \<rightharpoonup> string) \<Rightarrow> receiver_state \<Rightarrow> error + receiver_state" where
  "cascade pair SubSeq patterns st =
     (case chunks st (id' st) of
        None \<Rightarrow> Inr st
      | Some chunk \<Rightarrow>
          (case flush pair SubSeq patterns st chunk of
             Inl e \<Rightarrow> Inl e
           | Inr st' \<Rightarrow>
               cascade pair SubSeq patterns
                 (st'\<lparr>id' := id' st' + 1, chunks := (chunks st')(ID chunk := None)\<rparr>)))"
  by pat_completeness auto
termination
proof (relation "measures [\<lambda>(pair, SubSeq, patterns, st). card (dom (chunks st)),
    \<lambda>(pair, SubSeq, patterns, st). (LEAST n. chunks st (id' st + of_nat n) = None)]")
  show "wf (measures [\<lambda>(pair, SubSeq, patterns, st). card (dom (chunks st)),
    \<lambda>(pair, SubSeq, patterns, st). (LEAST n. chunks st (id' st + of_nat n) = None)])"
    by simp
next
  fix pair :: "char \<Rightarrow> char" and SubSeq :: sub_seq and patterns :: "string \<rightharpoonup> string"
    and st st' :: receiver_state and chunk :: LocationChunk
  assume present: "chunks st (id' st) = Some chunk"
    and fl: "flush pair SubSeq patterns st chunk = Inr st'"
  from fl have same: "chunks st' = chunks st" "id' st' = id' st"
    by (auto simp: flush_def elim!: and_then.elims)
  let ?m = "chunks st"
  show "((pair, SubSeq, patterns,
           st'\<lparr>id' := id' st' + 1, chunks := (chunks st')(ID chunk := None)\<rparr>),
         (pair, SubSeq, patterns, st))
        \<in> measures [\<lambda>(pair, SubSeq, patterns, st). card (dom (chunks st)),
            \<lambda>(pair, SubSeq, patterns, st). (LEAST n. chunks st (id' st + of_nat n) = None)]"
  proof (cases "ID chunk \<in> dom ?m")
    case True
    have "finite (dom ?m)" by simp
    then have "card (dom ?m - {ID chunk}) < card (dom ?m)"
      using True by (meson card_Diff1_less)
    then show ?thesis by (simp add: same)
  next
    case False
    then have unchanged: "?m(ID chunk := None) = ?m"
      by (auto simp: fun_eq_iff domIff)
    define d where "d = unat (ID chunk - id' st)"
    have "id' st + of_nat d = ID chunk" by (simp add: d_def)
    then have ex: "?m (id' st + of_nat d) = None"
      using False by (simp add: domIff)
    define n where "n = (LEAST n. ?m (id' st + of_nat n) = None)"
    have n_none: "?m (id' st + of_nat n) = None"
      unfolding n_def using ex by (rule LeastI)
    have "n \<noteq> 0" using n_none present by (cases n) auto
    then obtain n' where n': "n = Suc n'" by (cases n) auto
    have "?m (id' st + 1 + of_nat n') = None"
      using n_none by (simp add: n' ac_simps)
    then have "(LEAST k. ?m (id' st + 1 + of_nat k) = None) \<le> n'"
      by (rule Least_le)
    then have "(LEAST k. ?m (id' st + 1 + of_nat k) = None) < n"
      by (simp add: n')
    then show ?thesis by (simp add: same unchanged n_def)
  qed
qed


declare cascade.simps [simp del]

text \<open>One iteration of \<open>for chunk := range ch\<close>.\<close>

definition receive ::
  "(char \<Rightarrow> char) \<Rightarrow> sub_seq \<Rightarrow> (string \<rightharpoonup> string) \<Rightarrow> receiver_state \<Rightarrow> LocationChunk
     \<Rightarrow> error + receiver_state" where
  "receive pair SubSeq patterns st chunk =
     (if ID chunk = id' st
      then and_then (flush pair SubSeq patterns st chunk) (\<lambda>st'. Inr (st'\<lparr>id' := id' st' + 1\<rparr>))
      else and_then (cascade pair SubSeq patterns st)
             (\<lambda>st'. Inr (st'\<lparr>chunks := (chunks st')(ID chunk \<mapsto> chunk)\<rparr>)))"

text \<open>
  The loop over the channel \<open>ch\<close>; the list holds the chunks in the order in which they
  arrive, up to the close of the channel.
\<close>

fun range_ch ::
  "(char \<Rightarrow> char) \<Rightarrow> sub_seq \<Rightarrow> (string \<rightharpoonup> string) \<Rightarrow> receiver_state \<Rightarrow> LocationChunk list
     \<Rightarrow> error + receiver_state" where
  "range_ch pair SubSeq patterns st [] = Inr st"
| "range_ch pair SubSeq patterns st (chunk # rest) =
     and_then (receive pair SubSeq patterns st chunk)
       (\<lambda>st'. range_ch pair SubSeq patterns st' rest)"

text \<open>
  \<open>sortLocationChunkMapID\<close> copies the keys of the map into a slice and sorts it in
  ascending order, so the order in which the map is visited does not show in the result.
\<close>

definition sortLocationChunkMapID :: "(64 word \<rightharpoonup> LocationChunk) \<Rightarrow> 64 word list" where
  "sortLocationChunkMapID m = sorted_list_of_set (dom m)"

text \<open>Reading a key that is absent from a Go map gives the zero value.\<close>

definition lookup_chunk :: "(64 word \<rightharpoonup> LocationChunk) \<Rightarrow> 64 word \<Rightarrow> LocationChunk" where
  "lookup_chunk m k = (case m k of None \<Rightarrow> \<lparr>ID = 0, Data = []\<rparr> | Some chunk \<Rightarrow> chunk)"

fun drain ::
  "(char \<Rightarrow> char) \<Rightarrow> sub_seq \<Rightarrow> (string \<rightharpoonup> string) \<Rightarrow> receiver_state \<Rightarrow> 64 word list
     \<Rightarrow> error + receiver_state" where
  "drain pair SubSeq patterns st [] = Inr st"
| "drain pair SubSeq patterns st (k # ks) =
     and_then (flush pair SubSeq patterns st (lookup_chunk (chunks st) k))
       (\<lambda>st'. drain pair SubSeq patterns st' ks)"

definition init :: receiver_state where
  "init = \<lparr>id' = 0, chunks = Map.empty, outfh = [], flushed = []\<rparr>"

text \<open>The receiver goroutine, from its start to \<open>done <- 1\<close>.\<close>

definition receiver ::
  "(char \<Rightarrow> char) \<Rightarrow> sub_seq \<Rightarrow> (string \<rightharpoonup> string) \<Rightarrow> LocationChunk list \<Rightarrow> error + receiver_state" where
  "receiver pair SubSeq patterns arrivals =
     and_then (range_ch pair SubSeq patterns init arrivals)
       (\<lambda>st. if dom (chunks st) \<noteq> {}
             then drain pair SubSeq patterns st (sortLocationChunkMapID (chunks st))
             else Inr st)"

section \<open>The worker\<close>

text \<open>\<open>tlocs[i] = []int{l - loc[1], l - loc[0]}\<close>\<close>

definition translate :: "int \<Rightarrow> int list \<Rightarrow> error + int list" where
  "translate l loc =
     and_then (index loc 1) (\<lambda>hi. and_then (index loc 0) (\<lambda>lo. Inr [l - hi, l - lo]))"

text \<open>
  \<open>for pName, re := range regexps\<close> visits the entries of a Go map in an order that the
  language leaves open and that may change from one \<open>range\<close> statement to the next. The
  order taken by one such statement is the parameter \<open>order\<close>, a list of keys.
\<close>

definition range_regexps :: "(string \<rightharpoonup> Regexp) \<Rightarrow> string list \<Rightarrow> (string \<times> Regexp) list" where
  "range_regexps regexps order =
     List.map_filter (\<lambda>pName. map_option (Pair pName) (regexps pName)) order"

text \<open>The body of the loop over the patterns, for one record and one pattern.\<close>

definition locate_pattern ::
  "(char \<Rightarrow> char) \<Rightarrow> bool \<Rightarrow> FastaRecord \<Rightarrow> string \<times> Regexp \<Rightarrow> error + LocationInfo list" where
  "locate_pattern pair onlyPositiveStrand record p =
     (let pName = fst p; re = snd p;
          found = re (Seq' record);
          fwd = (if length found > 0
                 then [\<lparr>Record = record, PatternName = pName, Strand = 1, Locations = found\<rparr>]
                 else [])
      in if onlyPositiveStrand then Inr fwd
         else
           let seqRP = RevCom pair (Seq' record);
               found' = re seqRP
           in if length found' > 0
              then and_then (traverse (translate (int (length seqRP))) found')
                     (\<lambda>tlocs. Inr (fwd @ [\<lparr>Record = record, PatternName = pName,
                                              Strand = - 1, Locations = tlocs\<rparr>]))
              else Inr fwd)"

definition locate_record ::
  "(char \<Rightarrow> char) \<Rightarrow> (string \<rightharpoonup> Regexp) \<Rightarrow> bool \<Rightarrow> string list \<Rightarrow> FastaRecord
     \<Rightarrow> error + LocationInfo list" where
  "locate_record pair regexps onlyPositiveStrand order record =
     and_then (traverse (locate_pattern pair onlyPositiveStrand record)
                 (range_regexps regexps order))
       (\<lambda>ls. Inr (concat ls))"

text \<open>
  The loop over \<open>chunk.Data\<close>; \<open>orders i\<close> is the order in which the pattern map is
  visited for the record at index \<open>i\<close>.
\<close>

fun locate_records ::
  "(char \<Rightarrow> char) \<Rightarrow> (string \<rightharpoonup> Regexp) \<Rightarrow> bool \<Rightarrow> (nat \<Rightarrow> string list) \<Rightarrow> nat
     \<Rightarrow> FastaRecord list \<Rightarrow> error + LocationInfo list" where
  "locate_records pair regexps onlyPositiveStrand orders i [] = Inr []"
| "locate_records pair regexps onlyPositiveStrand orders i (record # rest) =
     and_then (locate_record pair regexps onlyPositiveStrand (orders i) record) (\<lambda>ls.
     and_then (locate_records pair regexps onlyPositiveStrand orders (Suc i) rest) (\<lambda>ls'.
       Inr (ls @ ls')))"

definition worker ::
  "(char \<Rightarrow> char) \<Rightarrow> (string \<rightharpoonup> Regexp) \<Rightarrow> bool \<Rightarrow> (nat \<Rightarrow> string list)
     \<Rightarrow> FastaRecordChunk \<Rightarrow> error + LocationChunk" where
  "worker pair regexps onlyPositiveStrand orders chunk =
     and_then (locate_records pair regexps onlyPositiveStrand orders 0 (Records chunk))
       (\<lambda>locations. Inr \<lparr>ID = ChunkID chunk, Data = locations\<rparr>)"

text \<open>
  All workers of one file: the results, listed in the order of the chunks read. The order
  in which they reach the channel is left to the scheduler.
\<close>

definition workers ::
  "(char \<Rightarrow> char) \<Rightarrow> (string \<rightharpoonup> Regexp) \<Rightarrow> bool \<Rightarrow> (64 word \<Rightarrow> nat \<Rightarrow> string list)
     \<Rightarrow> FastaRecordChunk list \<Rightarrow> error + LocationChunk list" where
  "workers pair regexps onlyPositiveStrand orders batches =
     traverse (\<lambda>chunk. worker pair regexps onlyPositiveStrand (orders (ChunkID chunk)) chunk)
       batches"

section \<open>Preparing the patterns\<close>

text \<open>
  The library functions called while the patterns are prepared (\<open>fasta.GetSeqsMap\<close>,
  \<open>seq.NewSeq\<close>, \<open>Seq.Degenerate2Regexp\<close> and \<open>regexp.Compile\<close>) are parameters.
  \<open>GetSeqsMap\<close> gives the records of the pattern file, listed in the order in which the
  \<open>range\<close> statement visits the map; \<open>checkError\<close> ends the program, which is the
  result \<open>Inl\<close>.
\<close>

record library =
  GetSeqsMap :: "string \<Rightarrow> error + (string \<times> FastaRecord) list"
  NewSeq :: "string \<Rightarrow> error + string"
  Degenerate2Regexp :: "string \<Rightarrow> string"
  Compile :: "string \<Rightarrow> error + Regexp"

type_synonym pattern_maps = "(string \<rightharpoonup> Regexp) \<times> (string \<rightharpoonup> string)"

definition compile_pattern :: "library \<Rightarrow> bool \<Rightarrow> string \<Rightarrow> error + Regexp" where
  "compile_pattern lib ignoreCase s =
     Compile lib (if ignoreCase then ''(?i)'' @ s else s)"

fun from_file ::
  "library \<Rightarrow> bool \<Rightarrow> bool \<Rightarrow> pattern_maps \<Rightarrow> (string \<times> FastaRecord) list
     \<Rightarrow> error + pattern_maps" where
  "from_file lib degenerate ignoreCase maps [] = Inr maps"
| "from_file lib degenerate ignoreCase maps ((name, record) # rest) =
     (let patterns = (snd maps)(name \<mapsto> Seq' record);
          s = (if degenerate then Degenerate2Regexp lib (Seq' record) else Seq' record)
      in and_then (compile_pattern lib ignoreCase s) (\<lambda>re.
           from_file lib degenerate ignoreCase ((fst maps)(name \<mapsto> re), patterns) rest))"

fun from_list ::
  "library \<Rightarrow> bool \<Rightarrow> bool \<Rightarrow> pattern_maps \<Rightarrow> string list \<Rightarrow> error + pattern_maps" where
  "from_list lib degenerate ignoreCase maps [] = Inr maps"
| "from_list lib degenerate ignoreCase maps (p # rest) =
     (let patterns = (snd maps)(p \<mapsto> p)
      in and_then (if degenerate
                   then (case NewSeq lib p of
                           Inl e \<Rightarrow> Inl NotASequence
                         | Inr pattern2seq \<Rightarrow> Inr (Degenerate2Regexp lib pattern2seq))
                   else Inr p) (\<lambda>s.
         and_then (compile_pattern lib ignoreCase s) (\<lambda>re.
           from_list lib degenerate ignoreCase ((fst maps)(p \<mapsto> re), patterns) rest)))"

text \<open>Lines 69 to 120 of the command: the check of the two flags and the two branches.\<close>

definition prepare ::
  "library \<Rightarrow> string list \<Rightarrow> string \<Rightarrow> bool \<Rightarrow> bool \<Rightarrow> error + pattern_maps" where
  "prepare lib pattern patternFile degenerate ignoreCase =
     (if length pattern = 0 \<and> patternFile = [] then Inl PatternNeeded
      else if patternFile \<noteq> []
        then and_then (GetSeqsMap lib patternFile)
               (from_file lib degenerate ignoreCase (Map.empty, Map.empty))
        else from_list lib degenerate ignoreCase (Map.empty, Map.empty) pattern)"

section \<open>Well-formed chunks and the invariant of the receiver\<close>

text \<open>
  A location is well formed for a record when it has the two bounds of a match and these
  lie within the sequence, as the locations of the regular expression engine do. The
  receiver does not panic on chunks of such locations.
\<close>

definition span_ok :: "nat \<Rightarrow> int list \<Rightarrow> bool" where
  "span_ok n loc \<longleftrightarrow>
     2 \<le> length loc \<and> 0 \<le> loc ! 0 \<and> loc ! 0 \<le> loc ! 1 \<and> loc ! 1 \<le> int n"

definition wf_loc :: "FastaRecord \<Rightarrow> int list \<Rightarrow> bool" where
  "wf_loc record loc \<longleftrightarrow> span_ok (length (Seq' record)) loc"

definition wf_info :: "LocationInfo \<Rightarrow> bool" where
  "wf_info locationInfo \<longleftrightarrow>
     list_all (wf_loc (Record locationInfo)) (Locations locationInfo)"

definition wf_chunk :: "LocationChunk \<Rightarrow> bool" where
  "wf_chunk chunk \<longleftrightarrow> list_all wf_info (Data chunk)"

text \<open>The rows that a flush writes for a chunk, when it does not panic.\<close>

definition rows_of ::
  "(char \<Rightarrow> char) \<Rightarrow> sub_seq \<Rightarrow> (string \<rightharpoonup> string) \<Rightarrow> LocationChunk \<Rightarrow> Row list" where
  "rows_of pair SubSeq patterns chunk = projr (write_chunk pair SubSeq patterns chunk)"

text \<open>
  The invariant of the loop over the channel, after the chunks \<open>rs\<close> were received: the
  chunks flushed are numbered \<open>0, 1, \<dots>\<close> up to \<open>id\<close>; every pending chunk is stored
  under its own sequence number; the pending keys are the sequence numbers received and
  not yet flushed; the rows written are those of the chunks flushed.
\<close>

definition receiver_inv ::
  "(char \<Rightarrow> char) \<Rightarrow> sub_seq \<Rightarrow> (string \<rightharpoonup> string) \<Rightarrow> LocationChunk list \<Rightarrow> receiver_state
     \<Rightarrow> bool" where
  "receiver_inv pair SubSeq patterns rs st \<longleftrightarrow>
     map (\<lambda>c. unat (ID c)) (flushed st) = [0..<length (flushed st)] \<and>
     id' st = of_nat (length (flushed st)) \<and>
     set (flushed st) \<subseteq> set rs \<and>
     (\<forall>key c. chunks st key = Some c \<longrightarrow> ID c = key \<and> c \<in> set rs) \<and>
     dom (chunks st) = ID ` set rs - ID ` set (flushed st) \<and>
     outfh st = concat (map (rows_of pair SubSeq patterns) (flushed st))"

text \<open>
  The contract of the regular expression engine: every location it returns for a byte
  slice starts with the two bounds of the match, which lie within the slice.
\<close>

definition wf_regexp :: "Regexp \<Rightarrow> bool" where
  "wf_regexp re \<longleftrightarrow> (\<forall>s. list_all (span_ok (length s)) (re s))"

text \<open>
  A record has a match when some pattern matches its sequence, or, unless only the positive
  strand is searched, its reverse complement.
\<close>

definition has_match ::
  "(char \<Rightarrow> char) \<Rightarrow> (string \<rightharpoonup> Regexp) \<Rightarrow> bool \<Rightarrow> FastaRecord \<Rightarrow> bool" where
  "has_match pair regexps onlyPositiveStrand record \<longleftrightarrow>
     (\<exists>re\<in>ran regexps. re (Seq' record) \<noteq> []
        \<or> (\<not> onlyPositiveStrand \<and> re (RevCom pair (Seq' record)) \<noteq> []))"

text \<open>
  The position of a pattern name in the order in which one \<open>range\<close> statement visits
  the patterns, and the order of the entries of one record: by that position first, and
  for one pattern the forward strand before the reverse strand.
\<close>

fun pos :: "'a list \<Rightarrow> 'a \<Rightarrow> nat" where
  "pos [] a = 0"
| "pos (x # xs) a = (if x = a then 0 else Suc (pos xs a))"

definition pattern_then_strand ::
  "string list \<Rightarrow> LocationInfo \<Rightarrow> LocationInfo \<Rightarrow> bool" where
  "pattern_then_strand order x y \<longleftrightarrow>
     pos order (PatternName x) < pos order (PatternName y)
     \<or> (PatternName x = PatternName y \<and> Strand x = 1 \<and> Strand y = - 1)"

section \<open>Properties of the receiver\<close>

lemma and_then_Inr_iff: "and_then m f = Inr y \<longleftrightarrow> (\<exists>x. m = Inr x \<and> f x = Inr y)"
  by (cases m) auto

lemma traverse_Inr_map:
  "traverse f xs = Inr ys \<Longrightarrow> ys = map (\<lambda>x. projr (f x)) xs \<and> (\<forall>x\<in>set xs. \<exists>y. f x = Inr y)"
  by (induction xs arbitrary: ys) (auto simp: and_then_Inr_iff)

lemma traverse_ok:
  "\<forall>x\<in>set xs. \<exists>y. f x = Inr y \<Longrightarrow> traverse f xs = Inr (map (\<lambda>x. projr (f x)) xs)"
proof (induction xs)
  case Nil
  show ?case by simp
next
  case (Cons a xs)
  then obtain y where "f a = Inr y" by auto
  with Cons show ?case by simp
qed

lemma matched_seq_ok:
  "0 \<le> lo \<Longrightarrow> lo \<le> hi \<Longrightarrow> hi \<le> int (length (Seq' (Record locationInfo)))
   \<Longrightarrow> \<exists>s. matched_seq pair SubSeq locationInfo lo hi = Inr s"
  by (simp add: matched_seq_def slice'_def)

lemma location_row_ok:
  assumes "wf_loc (Record locationInfo) loc"
  shows "\<exists>row. location_row pair SubSeq patterns locationInfo loc = Inr row"
proof -
  from assms have i0: "index loc 0 = Inr (loc ! 0)" and i1: "index loc 1 = Inr (loc ! 1)"
    by (auto simp: wf_loc_def span_ok_def index_def)
  from assms obtain s where "matched_seq pair SubSeq locationInfo (loc ! 0) (loc ! 1) = Inr s"
    using matched_seq_ok [of "loc ! 0" "loc ! 1" locationInfo pair]
    by (auto simp: wf_loc_def span_ok_def)
  then show ?thesis using i0 i1 by (simp add: location_row_def)
qed

lemma write_info_ok:
  "wf_info locationInfo \<Longrightarrow> \<exists>rows. write_info pair SubSeq patterns locationInfo = Inr rows"
  unfolding write_info_def wf_info_def
  using traverse_ok [of "Locations locationInfo" "location_row pair SubSeq patterns locationInfo"]
    location_row_ok [of locationInfo _ pair SubSeq patterns]
  by (auto simp: list_all_iff)

lemma write_chunk_ok:
  "wf_chunk chunk \<Longrightarrow> \<exists>rows. write_chunk pair SubSeq patterns chunk = Inr rows"
  unfolding write_chunk_def wf_chunk_def
  using traverse_ok [of "Data chunk" "write_info pair SubSeq patterns"]
    write_info_ok [of _ pair SubSeq patterns]
  by (auto simp: list_all_iff)

lemma flush_ok:
  "wf_chunk chunk \<Longrightarrow>
   flush pair SubSeq patterns st chunk =
     Inr (st\<lparr>outfh := outfh st @ rows_of pair SubSeq patterns chunk,
             flushed := flushed st @ [chunk]\<rparr>)"
  using write_chunk_ok [of chunk pair SubSeq patterns] by (auto simp: flush_def rows_of_def)

lemma inv_init: "receiver_inv pair SubSeq patterns [] init"
  by (simp add: receiver_inv_def init_def)

lemma fresh_above:
  assumes "map (\<lambda>c. unat (ID c)) fl = [0..<length fl]" and "x \<notin> ID ` set fl"
  shows "length fl \<le> unat x"
proof (rule ccontr)
  assume "\<not> length fl \<le> unat x"
  then have "unat x \<in> set [0..<length fl]" by simp
  then have "unat x \<in> set (map (\<lambda>c. unat (ID c)) fl)" using assms(1) by simp
  then obtain c where "c \<in> set fl" "unat (ID c) = unat x" by auto
  then have "ID c = x" by (simp add: word_unat_eq_iff)
  with \<open>c \<in> set fl\<close> assms(2) show False by auto
qed

lemma unat_of_nat_fresh:
  fixes x :: "64 word"
  assumes "map (\<lambda>c. unat (ID c)) fl = [0..<length fl]" and "x \<notin> ID ` set fl"
    and "x = of_nat (length fl)"
  shows "unat x = length fl"
proof -
  have "length fl \<le> unat x" using assms(1,2) by (rule fresh_above)
  then have "unat (of_nat (length fl) :: 64 word) = length fl" by (rule le_unat_uoi)
  then show ?thesis by (simp add: assms(3))
qed

lemma inv_flush:
  assumes "receiver_inv pair SubSeq patterns rs st" and "ID c = id' st"
    and "ID c \<notin> ID ` set (flushed st)"
  shows "map (\<lambda>c. unat (ID c)) (flushed st @ [c]) = [0..<length (flushed st @ [c])]"
    and "id' st + 1 = of_nat (length (flushed st @ [c]))"
proof -
  from assms have m: "map (\<lambda>c. unat (ID c)) (flushed st) = [0..<length (flushed st)]"
    and i: "ID c = of_nat (length (flushed st))"
    by (simp_all add: receiver_inv_def)
  have "unat (ID c) = length (flushed st)"
    using m assms(3) i by (rule unat_of_nat_fresh)
  then show "map (\<lambda>c. unat (ID c)) (flushed st @ [c]) = [0..<length (flushed st @ [c])]"
    using m by simp
  show "id' st + 1 = of_nat (length (flushed st @ [c]))"
    using assms(1) by (simp add: receiver_inv_def)
qed

lemma receive_match:
  assumes "receiver_inv pair SubSeq patterns rs st" and "wf_chunk c" and "ID c \<notin> ID ` set rs"
    and "ID c = id' st"
  shows "\<exists>st'. receive pair SubSeq patterns st c = Inr st'
           \<and> receiver_inv pair SubSeq patterns (rs @ [c]) st'"
proof -
  let ?st' = "st\<lparr>outfh := outfh st @ rows_of pair SubSeq patterns c, flushed := flushed st @ [c],
                 id' := id' st + 1\<rparr>"
  have r: "receive pair SubSeq patterns st c = Inr ?st'"
    using assms(2,4) by (simp add: receive_def flush_ok)
  have sub: "set (flushed st) \<subseteq> set rs" using assms(1) by (simp add: receiver_inv_def)
  then have nf: "ID c \<notin> ID ` set (flushed st)" using assms(3) by auto
  note fl = inv_flush [OF assms(1) assms(4) nf]
  have d: "dom (chunks st) = ID ` set rs - ID ` set (flushed st)"
    and ch: "\<forall>key c. chunks st key = Some c \<longrightarrow> ID c = key \<and> c \<in> set rs"
    and o: "outfh st = concat (map (rows_of pair SubSeq patterns) (flushed st))"
    using assms(1) by (simp_all add: receiver_inv_def)
  have "dom (chunks st) = ID ` set (rs @ [c]) - ID ` set (flushed st @ [c])"
    using d assms(3) by auto
  then have "receiver_inv pair SubSeq patterns (rs @ [c]) ?st'"
    unfolding receiver_inv_def using fl sub ch o by auto
  with r show ?thesis by blast
qed

lemma cascade_inv:
  assumes "receiver_inv pair SubSeq patterns rs st" and "list_all wf_chunk rs"
  shows "\<exists>st'. cascade pair SubSeq patterns st = Inr st' \<and> receiver_inv pair SubSeq patterns rs st'
           \<and> chunks st' (id' st') = None"
  using assms
proof (induction pair SubSeq patterns st rule: cascade.induct)
  case (1 pair SubSeq patterns st)
  show ?case
  proof (cases "chunks st (id' st)")
    case None
    with 1(2) show ?thesis by (simp add: cascade.simps)
  next
    case (Some c)
    have d: "dom (chunks st) = ID ` set rs - ID ` set (flushed st)"
      and ch: "\<forall>key c. chunks st key = Some c \<longrightarrow> ID c = key \<and> c \<in> set rs"
      and sub: "set (flushed st) \<subseteq> set rs"
      and o: "outfh st = concat (map (rows_of pair SubSeq patterns) (flushed st))"
      using 1(2) by (simp_all add: receiver_inv_def)
    from Some ch have idc: "ID c = id' st" and cin: "c \<in> set rs" by auto
    from Some have "id' st \<in> dom (chunks st)" by auto
    with d idc have nf: "ID c \<notin> ID ` set (flushed st)" by auto
    from cin 1(3) have wf: "wf_chunk c" by (simp add: list_all_iff)
    let ?st1 = "st\<lparr>outfh := outfh st @ rows_of pair SubSeq patterns c, flushed := flushed st @ [c]\<rparr>"
    let ?st2 = "?st1\<lparr>id' := id' ?st1 + 1, chunks := (chunks ?st1)(ID c := None)\<rparr>"
    have f: "flush pair SubSeq patterns st c = Inr ?st1" using wf by (rule flush_ok)
    note fl = inv_flush [OF 1(2) idc nf]
    have "dom (chunks ?st2) = ID ` set rs - ID ` set (flushed ?st2)"
      using d by auto
    then have "receiver_inv pair SubSeq patterns rs ?st2"
      unfolding receiver_inv_def using fl sub ch o cin by auto
    from 1(1) [OF Some f this 1(3)] show ?thesis
      using Some f by (simp add: cascade.simps [of pair SubSeq patterns st])
  qed
qed

lemma receive_store:
  assumes "receiver_inv pair SubSeq patterns rs st" and "list_all wf_chunk rs"
    and "ID c \<notin> ID ` set rs"
    and "ID c \<noteq> id' st"
  shows "\<exists>st'. receive pair SubSeq patterns st c = Inr st'
           \<and> receiver_inv pair SubSeq patterns (rs @ [c]) st'"
proof -
  from cascade_inv [OF assms(1,2)] obtain st1 where
    c: "cascade pair SubSeq patterns st = Inr st1"
    and i: "receiver_inv pair SubSeq patterns rs st1" by blast
  let ?st' = "st1\<lparr>chunks := (chunks st1)(ID c \<mapsto> c)\<rparr>"
  have r: "receive pair SubSeq patterns st c = Inr ?st'"
    using assms(4) c by (simp add: receive_def)
  have d: "dom (chunks st1) = ID ` set rs - ID ` set (flushed st1)"
    and sub: "set (flushed st1) \<subseteq> set rs"
    using i by (simp_all add: receiver_inv_def)
  have "dom (chunks ?st') = ID ` set (rs @ [c]) - ID ` set (flushed ?st')"
    using d sub assms(3) by auto
  then have "receiver_inv pair SubSeq patterns (rs @ [c]) ?st'"
    using i unfolding receiver_inv_def by auto
  with r show ?thesis by blast
qed

lemma range_ch_inv:
  assumes "receiver_inv pair SubSeq patterns rs st" and "distinct (map ID (rs @ cs))"
    and "list_all wf_chunk (rs @ cs)"
  shows "\<exists>st'. range_ch pair SubSeq patterns st cs = Inr st'
           \<and> receiver_inv pair SubSeq patterns (rs @ cs) st'"
  using assms
proof (induction cs arbitrary: rs st)
  case Nil
  then show ?case by simp
next
  case (Cons c cs)
  have fresh: "ID c \<notin> ID ` set rs" using Cons.prems(2) by auto
  have "\<exists>st1. receive pair SubSeq patterns st c = Inr st1
      \<and> receiver_inv pair SubSeq patterns (rs @ [c]) st1"
  proof (cases "ID c = id' st")
    case True
    with Cons.prems fresh show ?thesis by (intro receive_match) simp_all
  next
    case False
    with Cons.prems fresh show ?thesis by (intro receive_store) simp_all
  qed
  then obtain st1 where r: "receive pair SubSeq patterns st c = Inr st1"
    and i: "receiver_inv pair SubSeq patterns (rs @ [c]) st1" by blast
  from Cons.IH [OF i] Cons.prems(2,3) r show ?case by simp
qed

lemma drain_ok:
  assumes "\<forall>k\<in>set ks. wf_chunk (lookup_chunk (chunks st) k)"
  shows "drain pair SubSeq patterns st ks =
           Inr (st\<lparr>outfh := outfh st @
                       concat (map (\<lambda>k. rows_of pair SubSeq patterns
                                              (lookup_chunk (chunks st) k)) ks),
                    flushed := flushed st @ map (lookup_chunk (chunks st)) ks\<rparr>)"
  using assms
proof (induction ks arbitrary: st)
  case Nil
  show ?case by simp
next
  case (Cons k ks)
  let ?c = "lookup_chunk (chunks st) k"
  let ?st1 = "st\<lparr>outfh := outfh st @ rows_of pair SubSeq patterns ?c, flushed := flushed st @ [?c]\<rparr>"
  have f: "flush pair SubSeq patterns st ?c = Inr ?st1"
    using Cons.prems by (intro flush_ok) simp
  have "\<forall>k\<in>set ks. wf_chunk (lookup_chunk (chunks ?st1) k)"
    using Cons.prems by simp
  from Cons.IH [OF this] f show ?case by simp
qed

lemma map_unat_sorted_list_of_set:
  fixes A :: "64 word set"
  shows "map unat (sorted_list_of_set A) = sorted_list_of_set (unat ` A)"
proof -
  let ?xs = "sorted_list_of_set A"
  have fin: "finite A" by simp
  have "sorted_wrt (\<lambda>x y. unat x \<le> unat y) ?xs"
    by (rule sorted_wrt_mono_rel [OF _ sorted_sorted_list_of_set]) (simp add: word_le_nat_alt)
  then have "sorted (map unat ?xs)"
    by (simp add: sorted_map)
  moreover have "distinct (map unat ?xs)"
    by (simp add: distinct_map inj_on_def word_unat_eq_iff)
  ultimately have "sorted_list_of_set (set (map unat ?xs)) = map unat ?xs"
    by (rule sorted_list_of_set.idem_if_sorted_distinct)
  then show ?thesis using fin by simp
qed

lemma drain_if:
  "(if dom m \<noteq> {} then drain pair SubSeq patterns st (sortLocationChunkMapID m) else Inr st)
     = drain pair SubSeq patterns st (sortLocationChunkMapID m)"
  by (simp add: sortLocationChunkMapID_def)

lemma receiver_sorts:
  assumes ids: "mset (map (\<lambda>c. unat (ID c)) cs) = mset [0..<N]"
    and wf: "list_all wf_chunk cs"
  shows "\<exists>st. receiver pair SubSeq patterns cs = Inr st
           \<and> map (\<lambda>c. unat (ID c)) (flushed st) = [0..<N]
           \<and> mset (flushed st) = mset cs
           \<and> outfh st = concat (map (rows_of pair SubSeq patterns) (flushed st))"
proof -
  have dist_u: "distinct (map (\<lambda>c. unat (ID c)) cs)"
    using ids by (metis distinct_upt mset_eq_imp_distinct_iff)
  have "map (\<lambda>c. unat (ID c)) cs = map unat (map ID cs)" by simp
  with dist_u have "distinct (map unat (map ID cs))" by simp
  then have dist: "distinct (map ID cs)" by (simp only: distinct_map [of unat])
  then have dist_cs: "distinct cs" by (simp add: distinct_map)
  have set_u: "(\<lambda>c. unat (ID c)) ` set cs = {0..<N}"
    using mset_eq_setD [OF ids] by simp
  have len: "length cs = N"
    using mset_eq_length [OF ids] by simp
  from range_ch_inv [OF inv_init, of cs pair SubSeq patterns] dist wf
  obtain st where r: "range_ch pair SubSeq patterns init cs = Inr st"
    and i: "receiver_inv pair SubSeq patterns cs st"
    by auto
  define k where "k = length (flushed st)"
  have m: "map (\<lambda>c. unat (ID c)) (flushed st) = [0..<k]"
    and sub: "set (flushed st) \<subseteq> set cs"
    and ch: "\<forall>key c. chunks st key = Some c \<longrightarrow> ID c = key \<and> c \<in> set cs"
    and d: "dom (chunks st) = ID ` set cs - ID ` set (flushed st)"
    and o: "outfh st = concat (map (rows_of pair SubSeq patterns) (flushed st))"
    using i by (simp_all add: receiver_inv_def k_def)
  have fl_u: "(\<lambda>c. unat (ID c)) ` set (flushed st) = {0..<k}"
    using arg_cong [OF m, of set] by simp
  have "{0..<k} \<subseteq> {0..<N}"
    using sub fl_u set_u by blast
  then have kN: "k \<le> N" by (cases "k = 0") auto
  let ?keys = "sortLocationChunkMapID (chunks st)"
  have "unat ` dom (chunks st) = unat ` ID ` set cs - unat ` ID ` set (flushed st)"
    unfolding d by (intro image_set_diff) (simp add: inj_on_def word_unat_eq_iff)
  also have "\<dots> = {0..<N} - {0..<k}"
    using set_u fl_u by (simp add: image_image)
  also have "\<dots> = {k..<N}" by auto
  finally have "unat ` dom (chunks st) = {k..<N}" .
  then have keys_u: "map unat ?keys = [k..<N]"
    by (simp add: sortLocationChunkMapID_def map_unat_sorted_list_of_set)
  have keys_dom: "set ?keys = dom (chunks st)"
    by (simp add: sortLocationChunkMapID_def)
  have look: "\<forall>key\<in>set ?keys. ID (lookup_chunk (chunks st) key) = key
                \<and> lookup_chunk (chunks st) key \<in> set cs"
    using keys_dom ch by (auto simp: lookup_chunk_def)
  then have wfk: "\<forall>key\<in>set ?keys. wf_chunk (lookup_chunk (chunks st) key)"
    using wf by (auto simp: list_all_iff)
  let ?dr = "map (lookup_chunk (chunks st)) ?keys"
  let ?st' = "st\<lparr>outfh := outfh st @
                       concat (map (\<lambda>k. rows_of pair SubSeq patterns
                                              (lookup_chunk (chunks st) k)) ?keys),
                 flushed := flushed st @ ?dr\<rparr>"
  have res: "receiver pair SubSeq patterns cs = Inr ?st'"
    by (simp add: receiver_def r drain_if drain_ok [OF wfk] del: dom_eq_empty_conv)
  define fl where "fl = flushed st @ ?dr"
  have "map (\<lambda>c. unat (ID c)) ?dr = map unat ?keys"
    using look by simp
  moreover have "[0..<k] @ [k..<N] = [0..<N]"
    using upt_add_eq_append [of 0 k "N - k"] kN by simp
  ultimately have fl': "map (\<lambda>c. unat (ID c)) fl = [0..<N]"
    using m keys_u by (simp add: fl_def)
  have sub': "set fl \<subseteq> set cs"
    using sub look by (auto simp: fl_def)
  have "distinct (map (\<lambda>c. unat (ID c)) fl)"
    unfolding fl' by simp
  then have dist': "distinct fl" by (simp only: distinct_map)
  have "length fl = N"
    using arg_cong [OF fl', of length] by simp
  moreover have "card (set fl) = length fl" using dist' by (rule distinct_card)
  moreover have "card (set cs) = length cs" using dist_cs by (rule distinct_card)
  ultimately have "card (set fl) = card (set cs)"
    using len by simp
  then have "set fl = set cs"
    using sub' by (simp add: card_subset_eq)
  then have ms: "mset fl = mset cs"
    using dist' dist_cs by (simp add: set_eq_iff_mset_eq_distinct)
  have "outfh ?st' = concat (map (rows_of pair SubSeq patterns) fl)"
    using o by (simp add: comp_def fl_def)
  moreover have "flushed ?st' = fl" by (simp add: fl_def)
  ultimately show ?thesis using res fl' ms by metis
qed

lemma cascade_exit:
  "cascade pair SubSeq patterns st = Inr st' \<Longrightarrow> chunks st' (id' st') = None"
proof (induction pair SubSeq patterns st rule: cascade.induct)
  case (1 pair SubSeq patterns st)
  show ?case
  proof (cases "chunks st (id' st)")
    case None
    with 1(2) show ?thesis by (simp add: cascade.simps [of pair SubSeq patterns st])
  next
    case (Some c)
    with 1(2) obtain st1 where f: "flush pair SubSeq patterns st c = Inr st1"
      and c: "cascade pair SubSeq patterns
                (st1\<lparr>id' := id' st1 + 1, chunks := (chunks st1)(ID c := None)\<rparr>) = Inr st'"
      by (auto simp: cascade.simps [of pair SubSeq patterns st] split: sum.splits)
    from 1(1) [OF Some f c] show ?thesis .
  qed
qed

lemma cascade_flushes:
  assumes "\<forall>k c. chunks st k = Some c \<longrightarrow> ID c = k \<and> wf_chunk c"
  shows "\<exists>cs. (\<forall>i<length cs. chunks st (id' st + of_nat i) = Some (cs ! i))
           \<and> distinct (map ID cs)
           \<and> (if id' st + of_nat (length cs) \<in> ID ` set cs then None
               else chunks st (id' st + of_nat (length cs))) = None
           \<and> cascade pair SubSeq patterns st =
               Inr \<lparr>id' = id' st + of_nat (length cs),
                    chunks = (\<lambda>k. if k \<in> ID ` set cs then None else chunks st k),
                    outfh = outfh st @ concat (map (rows_of pair SubSeq patterns) cs),
                    flushed = flushed st @ cs\<rparr>"
  using assms
proof (induction pair SubSeq patterns st rule: cascade.induct)
  case (1 pair SubSeq patterns st)
  show ?case
  proof (cases "chunks st (id' st)")
    case None
    have "cascade pair SubSeq patterns st = Inr st"
      using None by (simp add: cascade.simps [of pair SubSeq patterns st])
    then have "(\<forall>i<length ([] :: LocationChunk list).
           chunks st (id' st + of_nat i) = Some (([] :: LocationChunk list) ! i))
        \<and> distinct (map ID ([] :: LocationChunk list))
        \<and> (if id' st + of_nat (length ([] :: LocationChunk list)) \<in> ID ` set [] then None
            else chunks st (id' st + of_nat (length ([] :: LocationChunk list)))) = None
        \<and> cascade pair SubSeq patterns st =
               Inr \<lparr>id' = id' st + of_nat (length ([] :: LocationChunk list)),
                    chunks = (\<lambda>k. if k \<in> ID ` set [] then None else chunks st k),
                    outfh = outfh st @ concat (map (rows_of pair SubSeq patterns) []),
                    flushed = flushed st @ []\<rparr>"
      using None by simp
    then show ?thesis by blast
  next
    case (Some c)
    with 1(2) have idc: "ID c = id' st" and wf: "wf_chunk c" by auto
    let ?st1 = "st\<lparr>outfh := outfh st @ rows_of pair SubSeq patterns c,
                   flushed := flushed st @ [c]\<rparr>"
    let ?st2 = "?st1\<lparr>id' := id' ?st1 + 1, chunks := (chunks ?st1)(ID c := None)\<rparr>"
    have f: "flush pair SubSeq patterns st c = Inr ?st1" using wf by (rule flush_ok)
    have inv2: "\<forall>k c. chunks ?st2 k = Some c \<longrightarrow> ID c = k \<and> wf_chunk c"
      using 1(2) by (auto split: if_splits)
    from 1(1) [OF Some f inv2] obtain cs where
      p: "\<forall>i<length cs. chunks ?st2 (id' ?st2 + of_nat i) = Some (cs ! i)"
      and d: "distinct (map ID cs)"
      and e: "(if id' ?st2 + of_nat (length cs) \<in> ID ` set cs then None
               else chunks ?st2 (id' ?st2 + of_nat (length cs))) = None"
      and r: "cascade pair SubSeq patterns ?st2 =
               Inr \<lparr>id' = id' ?st2 + of_nat (length cs),
                    chunks = (\<lambda>k. if k \<in> ID ` set cs then None else chunks ?st2 k),
                    outfh = outfh ?st2 @ concat (map (rows_of pair SubSeq patterns) cs),
                    flushed = flushed ?st2 @ cs\<rparr>"
      by blast
    have key: "chunks st (id' st + 1 + of_nat i) = Some (cs ! i) \<and> ID (cs ! i) \<noteq> id' st"
      if "i < length cs" for i
    proof -
      from p that have s: "chunks ?st2 (id' st + 1 + of_nat i) = Some (cs ! i)" by simp
      then have ne: "id' st + 1 + of_nat i \<noteq> id' st" by (auto simp: idc split: if_splits)
      with s have "chunks st (id' st + 1 + of_nat i) = Some (cs ! i)" by (simp add: idc)
      moreover from this 1(2) have "ID (cs ! i) = id' st + 1 + of_nat i" by blast
      ultimately show ?thesis using ne by simp
    qed
    have a: "\<forall>i<length (c # cs). chunks st (id' st + of_nat i) = Some ((c # cs) ! i)"
    proof (intro allI impI)
      fix i assume "i < length (c # cs)"
      then show "chunks st (id' st + of_nat i) = Some ((c # cs) ! i)"
        using Some key by (cases i) (simp_all add: ac_simps)
    qed
    have "ID c \<notin> ID ` set cs"
    proof
      assume "ID c \<in> ID ` set cs"
      then obtain i where "i < length cs" and "ID (cs ! i) = ID c"
        by (auto simp: in_set_conv_nth)
      with key [of i] idc show False by simp
    qed
    with d have b: "distinct (map ID (c # cs))" by simp
    have m: "(\<lambda>k. if k \<in> ID ` set cs then None else chunks ?st2 k)
        = (\<lambda>k. if k \<in> ID ` set (c # cs) then None else chunks st k)"
      by (auto simp: fun_eq_iff idc)
    have n: "id' ?st2 + of_nat (length cs) = id' st + of_nat (length (c # cs))"
      by (simp add: ac_simps)
    from e have e': "(if id' st + of_nat (length (c # cs)) \<in> ID ` set (c # cs) then None
               else chunks st (id' st + of_nat (length (c # cs)))) = None"
      by (simp add: ac_simps idc split: if_splits)
    have "cascade pair SubSeq patterns st = cascade pair SubSeq patterns ?st2"
      using Some f by (simp add: cascade.simps [of pair SubSeq patterns st])
    also have "\<dots> = Inr \<lparr>id' = id' st + of_nat (length (c # cs)),
                    chunks = (\<lambda>k. if k \<in> ID ` set (c # cs) then None else chunks st k),
                    outfh = outfh st @ concat (map (rows_of pair SubSeq patterns) (c # cs)),
                    flushed = flushed st @ c # cs\<rparr>"
      unfolding r m n by simp
    finally show ?thesis using a b e' by blast
  qed
qed

lemma inv_pending_ge:
  assumes "receiver_inv pair SubSeq patterns rs st" and "k \<notin> ID ` set (flushed st)"
  shows "id' st \<le> k"
proof -
  from assms(1) have m: "map (\<lambda>c. unat (ID c)) (flushed st) = [0..<length (flushed st)]"
    and i: "id' st = of_nat (length (flushed st))"
    by (simp_all add: receiver_inv_def)
  have le: "length (flushed st) \<le> unat k" using m assms(2) by (rule fresh_above)
  then have "unat (of_nat (length (flushed st)) :: 64 word) = length (flushed st)"
    by (rule le_unat_uoi)
  with le i show ?thesis by (simp add: word_le_nat_alt)
qed

lemma distinct_ids:
  assumes "mset (map (\<lambda>c. unat (ID c)) cs) = mset [0..<N]"
  shows "distinct (map ID cs)"
proof -
  have "distinct (map (\<lambda>c. unat (ID c)) cs)"
    using assms by (metis distinct_upt mset_eq_imp_distinct_iff)
  moreover have "map (\<lambda>c. unat (ID c)) cs = map unat (map ID cs)" by simp
  ultimately have "distinct (map unat (map ID cs))" by simp
  then show ?thesis by (simp only: distinct_map [of unat])
qed

lemma inv_pending_keys:
  assumes "receiver_inv pair SubSeq patterns rs st" and "k \<in> dom (chunks st)"
  shows "id' st \<le> k"
proof -
  from assms have "k \<notin> ID ` set (flushed st)" by (simp add: receiver_inv_def)
  with assms(1) show ?thesis by (rule inv_pending_ge)
qed

section \<open>Properties of the worker and of the rows written\<close>

lemma translate_ok:
  "span_ok n loc \<Longrightarrow> translate l loc = Inr [l - loc ! 1, l - loc ! 0]"
  by (auto simp: span_ok_def translate_def index_def)

lemma traverse_translate:
  assumes "list_all (span_ok n) found"
  shows "traverse (translate l) found = Inr (map (\<lambda>loc. [l - loc ! 1, l - loc ! 0]) found)"
proof -
  have "\<forall>loc\<in>set found. \<exists>y. translate l loc = Inr y"
    using assms translate_ok [of n _ l] by (auto simp: list_all_iff)
  then have "traverse (translate l) found = Inr (map (\<lambda>loc. projr (translate l loc)) found)"
    by (rule traverse_ok)
  moreover have "map (\<lambda>loc. projr (translate l loc)) found
      = map (\<lambda>loc. [l - loc ! 1, l - loc ! 0]) found"
    using assms translate_ok [of n _ l] by (auto simp: list_all_iff)
  ultimately show ?thesis by simp
qed

lemma span_ok_translate:
  "span_ok n loc \<Longrightarrow> span_ok n [int n - loc ! 1, int n - loc ! 0]"
  by (auto simp: span_ok_def)

lemma length_RevCom: "length (RevCom pair s) = length s"
  by (simp add: RevCom_def)

lemma locate_pattern_ok:
  assumes "list_all (span_ok (length (Seq' record))) (re (Seq' record))"
    and "\<not> onlyPositiveStrand \<Longrightarrow>
           list_all (span_ok (length (Seq' record))) (re (RevCom pair (Seq' record)))"
  shows "locate_pattern pair onlyPositiveStrand record (pName, re) =
     Inr ((if re (Seq' record) \<noteq> []
           then [\<lparr>Record = record, PatternName = pName, Strand = 1,
                   Locations = re (Seq' record)\<rparr>]
           else [])
          @ (if \<not> onlyPositiveStrand \<and> re (RevCom pair (Seq' record)) \<noteq> []
             then [\<lparr>Record = record, PatternName = pName, Strand = - 1,
                     Locations = map (\<lambda>loc. [int (length (Seq' record)) - loc ! 1,
                                               int (length (Seq' record)) - loc ! 0])
                                   (re (RevCom pair (Seq' record)))\<rparr>]
             else []))"
proof (cases onlyPositiveStrand)
  case True
  then show ?thesis by (simp add: locate_pattern_def Let_def)
next
  case False
  with assms(2) have "list_all (span_ok (length (Seq' record))) (re (RevCom pair (Seq' record)))"
    by simp
  then have "traverse (translate (int (length (Seq' record)))) (re (RevCom pair (Seq' record)))
      = Inr (map (\<lambda>loc. [int (length (Seq' record)) - loc ! 1,
                          int (length (Seq' record)) - loc ! 0])
               (re (RevCom pair (Seq' record))))"
    by (rule traverse_translate)
  with False show ?thesis by (simp add: locate_pattern_def Let_def length_RevCom)
qed

lemma location_row_fields:
  assumes "wf_loc (Record locationInfo) loc"
  shows "\<exists>s. location_row pair SubSeq patterns locationInfo loc =
           Inr \<lparr>col_seqID = RecordID (Record locationInfo),
                col_patternName = PatternName locationInfo,
                col_pattern = (case patterns (PatternName locationInfo) of
                                 None \<Rightarrow> [] | Some p \<Rightarrow> p),
                col_strand = Strand locationInfo,
                col_start = loc ! 0 + 1,
                col_end = loc ! 1,
                col_matched = s\<rparr>"
proof -
  from assms have i0: "index loc 0 = Inr (loc ! 0)" and i1: "index loc 1 = Inr (loc ! 1)"
    and b: "0 \<le> loc ! 0" "loc ! 0 \<le> loc ! 1" "loc ! 1 \<le> int (length (Seq' (Record locationInfo)))"
    by (auto simp: wf_loc_def span_ok_def index_def)
  from matched_seq_ok [OF b, of pair SubSeq] obtain s where
    "matched_seq pair SubSeq locationInfo (loc ! 0) (loc ! 1) = Inr s" by blast
  then show ?thesis using i0 i1 by (simp add: location_row_def)
qed

lemma write_info_rows:
  assumes "wf_info locationInfo"
  shows "\<exists>rows. write_info pair SubSeq patterns locationInfo = Inr rows
           \<and> map (\<lambda>row. (col_strand row, col_start row, col_end row)) rows
               = map (\<lambda>loc. (Strand locationInfo, loc ! 0 + 1, loc ! 1)) (Locations locationInfo)
           \<and> map col_seqID rows
               = map (\<lambda>loc. RecordID (Record locationInfo)) (Locations locationInfo)
           \<and> (\<forall>row\<in>set rows. col_seqID row = RecordID (Record locationInfo)
                  \<and> col_patternName row = PatternName locationInfo
                  \<and> 1 \<le> col_start row \<and> col_start row \<le> col_end row + 1
                  \<and> col_end row \<le> int (length (Seq' (Record locationInfo))))"
proof -
  let ?f = "location_row pair SubSeq patterns locationInfo"
  have wf: "\<forall>loc\<in>set (Locations locationInfo). wf_loc (Record locationInfo) loc"
    using assms by (simp add: wf_info_def list_all_iff)
  then have ex: "\<forall>loc\<in>set (Locations locationInfo). \<exists>row. ?f loc = Inr row"
    using location_row_ok by blast
  then have w: "write_info pair SubSeq patterns locationInfo
      = Inr (map (\<lambda>loc. projr (?f loc)) (Locations locationInfo))"
    unfolding write_info_def by (rule traverse_ok)
  have fields: "col_strand (projr (?f loc)) = Strand locationInfo
      \<and> col_start (projr (?f loc)) = loc ! 0 + 1 \<and> col_end (projr (?f loc)) = loc ! 1
      \<and> col_seqID (projr (?f loc)) = RecordID (Record locationInfo)
      \<and> col_patternName (projr (?f loc)) = PatternName locationInfo
      \<and> 0 \<le> loc ! 0 \<and> loc ! 0 \<le> loc ! 1 \<and> loc ! 1 \<le> int (length (Seq' (Record locationInfo)))"
    if "loc \<in> set (Locations locationInfo)" for loc
  proof -
    from that wf have l: "wf_loc (Record locationInfo) loc" by simp
    from location_row_fields [OF l, of pair SubSeq patterns] l show ?thesis
      by (auto simp: wf_loc_def span_ok_def)
  qed
  have "map (\<lambda>row. (col_strand row, col_start row, col_end row))
          (map (\<lambda>loc. projr (?f loc)) (Locations locationInfo))
      = map (\<lambda>loc. (Strand locationInfo, loc ! 0 + 1, loc ! 1)) (Locations locationInfo)"
    using fields by simp
  moreover have "map col_seqID (map (\<lambda>loc. projr (?f loc)) (Locations locationInfo))
      = map (\<lambda>loc. RecordID (Record locationInfo)) (Locations locationInfo)"
    using fields by simp
  moreover have "\<forall>row\<in>set (map (\<lambda>loc. projr (?f loc)) (Locations locationInfo)).
      col_seqID row = RecordID (Record locationInfo)
      \<and> col_patternName row = PatternName locationInfo
      \<and> 1 \<le> col_start row \<and> col_start row \<le> col_end row + 1
      \<and> col_end row \<le> int (length (Seq' (Record locationInfo)))"
    using fields by auto
  ultimately show ?thesis using w by blast
qed

lemma write_chunk_rows:
  assumes "wf_chunk chunk"
  shows "\<exists>rows. write_chunk pair SubSeq patterns chunk = Inr rows
           \<and> map (\<lambda>row. (col_strand row, col_start row, col_end row)) rows
               = concat (map (\<lambda>locationInfo.
                    map (\<lambda>loc. (Strand locationInfo, loc ! 0 + 1, loc ! 1))
                      (Locations locationInfo)) (Data chunk))
           \<and> map col_seqID rows
               = concat (map (\<lambda>locationInfo.
                    map (\<lambda>loc. RecordID (Record locationInfo)) (Locations locationInfo))
                    (Data chunk))
           \<and> (\<forall>row\<in>set rows. \<exists>locationInfo\<in>set (Data chunk).
                  col_seqID row = RecordID (Record locationInfo)
                  \<and> col_patternName row = PatternName locationInfo
                  \<and> 1 \<le> col_start row \<and> col_start row \<le> col_end row + 1
                  \<and> col_end row \<le> int (length (Seq' (Record locationInfo))))"
proof -
  let ?g = "\<lambda>locationInfo. projr (write_info pair SubSeq patterns locationInfo)"
  have wf: "\<forall>locationInfo\<in>set (Data chunk). wf_info locationInfo"
    using assms by (simp add: wf_chunk_def list_all_iff)
  then have "\<forall>locationInfo\<in>set (Data chunk).
      \<exists>rows. write_info pair SubSeq patterns locationInfo = Inr rows"
    using write_info_ok by blast
  then have "traverse (write_info pair SubSeq patterns) (Data chunk) = Inr (map ?g (Data chunk))"
    by (rule traverse_ok)
  then have w: "write_chunk pair SubSeq patterns chunk = Inr (concat (map ?g (Data chunk)))"
    by (simp add: write_chunk_def)
  have each: "map (\<lambda>row. (col_strand row, col_start row, col_end row)) (?g locationInfo)
        = map (\<lambda>loc. (Strand locationInfo, loc ! 0 + 1, loc ! 1)) (Locations locationInfo)
      \<and> map col_seqID (?g locationInfo)
        = map (\<lambda>loc. RecordID (Record locationInfo)) (Locations locationInfo)
      \<and> (\<forall>row\<in>set (?g locationInfo). col_seqID row = RecordID (Record locationInfo)
                  \<and> col_patternName row = PatternName locationInfo
                  \<and> 1 \<le> col_start row \<and> col_start row \<le> col_end row + 1
                  \<and> col_end row \<le> int (length (Seq' (Record locationInfo))))"
    if "locationInfo \<in> set (Data chunk)" for locationInfo
  proof -
    from that wf have "wf_info locationInfo" by simp
    from write_info_rows [OF this, of pair SubSeq patterns] show ?thesis by auto
  qed
  have "map (\<lambda>row. (col_strand row, col_start row, col_end row)) (concat (map ?g (Data chunk)))
      = concat (map (\<lambda>locationInfo.
                    map (\<lambda>loc. (Strand locationInfo, loc ! 0 + 1, loc ! 1))
                      (Locations locationInfo)) (Data chunk))"
    using each by (simp add: map_concat comp_def cong: map_cong)
  moreover have "map col_seqID (concat (map ?g (Data chunk)))
      = concat (map (\<lambda>locationInfo.
                    map (\<lambda>loc. RecordID (Record locationInfo)) (Locations locationInfo))
                    (Data chunk))"
  proof -
    have e: "map (\<lambda>locationInfo. map col_seqID (?g locationInfo)) (Data chunk)
        = map (\<lambda>locationInfo.
                 map (\<lambda>loc. RecordID (Record locationInfo)) (Locations locationInfo))
            (Data chunk)"
      using each by (intro map_cong) simp_all
    have "map col_seqID (concat (map ?g (Data chunk)))
        = concat (map (\<lambda>locationInfo. map col_seqID (?g locationInfo)) (Data chunk))"
      by (simp add: map_concat comp_def)
    then show ?thesis by (simp only: e)
  qed
  moreover have "\<forall>row\<in>set (concat (map ?g (Data chunk))). \<exists>locationInfo\<in>set (Data chunk).
                  col_seqID row = RecordID (Record locationInfo)
                  \<and> col_patternName row = PatternName locationInfo
                  \<and> 1 \<le> col_start row \<and> col_start row \<le> col_end row + 1
                  \<and> col_end row \<le> int (length (Seq' (Record locationInfo)))"
    using each by fastforce
  ultimately show ?thesis using w by blast
qed

lemma rev_slice:
  assumes "a \<le> b" and "b \<le> length xs"
  shows "rev (take (b - a) (drop (length xs - b) xs)) = take (b - a) (drop a (rev xs))"
proof -
  have "rev (take (b - a) (drop (length xs - b) xs))
      = drop (length (drop (length xs - b) xs) - (b - a)) (rev (drop (length xs - b) xs))"
    by (rule rev_take)
  also have "\<dots> = drop a (take b (rev xs))"
    using assms by (simp add: rev_drop)
  also have "\<dots> = take (b - a) (drop a (rev xs))"
    by (rule drop_take)
  finally show ?thesis .
qed

lemma matched_seq_reverse:
  assumes lib: "\<forall>s start end. 1 \<le> start \<and> start \<le> end \<and> end \<le> int (length s) \<longrightarrow>
      SubSeq s start end = take (nat (end - start + 1)) (drop (nat (start - 1)) s)"
    and "0 \<le> a" and "a < b" and "b \<le> int (length (Seq' record))"
    and "Record locationInfo = record" and "Strand locationInfo = - 1"
  shows "matched_seq pair SubSeq locationInfo (int (length (Seq' record)) - b)
             (int (length (Seq' record)) - a)
           = slice' (RevCom pair (Seq' record)) a b"
proof -
  let ?S = "Seq' record"
  let ?L = "int (length ?S)"
  have sl: "slice' (RevCom pair ?S) a b
      = Inr (take (nat (b - a)) (drop (nat a) (RevCom pair ?S)))"
    using assms(2-4) by (simp add: slice'_def length_RevCom)
  have "SubSeq ?S (?L - b + 1) (?L - a)
      = take (nat (?L - a - (?L - b + 1) + 1)) (drop (nat (?L - b + 1 - 1)) ?S)"
    using assms(2-4) by (intro lib [rule_format]) simp
  then have sub: "SubSeq ?S (?L - b + 1) (?L - a) = take (nat (b - a)) (drop (nat (?L - b)) ?S)"
    by simp
  have n1: "nat (b - a) = nat b - nat a" and n2: "nat (?L - b) = length ?S - nat b"
    using assms(2-4) by simp_all
  have "nat a \<le> nat b" and "nat b \<le> length ?S"
    using assms(2-4) by simp_all
  then have "rev (take (nat b - nat a) (drop (length ?S - nat b) ?S))
      = take (nat b - nat a) (drop (nat a) (rev ?S))"
    by (rule rev_slice)
  then have "RevCom pair (take (nat (b - a)) (drop (nat (?L - b)) ?S))
      = take (nat (b - a)) (drop (nat a) (RevCom pair ?S))"
    by (simp only: RevCom_def n1 n2 take_map drop_map)
  then show ?thesis
    using assms(5,6) by (simp add: matched_seq_def sub sl)
qed

lemma range_regexps_Nil: "range_regexps regexps [] = []"
  by (simp add: range_regexps_def)

lemma range_regexps_Cons:
  "range_regexps regexps (p # order) =
     (case regexps p of None \<Rightarrow> range_regexps regexps order
      | Some re \<Rightarrow> (p, re) # range_regexps regexps order)"
  by (simp add: range_regexps_def split: option.splits)

lemma set_range_regexps:
  "set (range_regexps regexps order) = {(p, re). p \<in> set order \<and> regexps p = Some re}"
  by (induction order) (auto simp: range_regexps_Nil range_regexps_Cons split: option.splits)

lemma locate_pattern_shape:
  assumes "locate_pattern pair onlyPositiveStrand record (pName, re) = Inr infos"
  shows "(\<forall>i\<in>set infos. PatternName i = pName \<and> Record i = record)
       \<and> map Strand infos \<in> {[], [1], [- 1], [1, - 1]}
       \<and> (infos \<noteq> [] \<longleftrightarrow> re (Seq' record) \<noteq> []
            \<or> (\<not> onlyPositiveStrand \<and> re (RevCom pair (Seq' record)) \<noteq> []))"
  using assms
  by (auto simp: locate_pattern_def Let_def and_then_Inr_iff split: if_splits)

lemma locate_pattern_total:
  assumes "wf_regexp re"
  shows "\<exists>infos. locate_pattern pair onlyPositiveStrand record (pName, re) = Inr infos
           \<and> list_all wf_info infos"
proof -
  let ?n = "length (Seq' record)"
  have f: "list_all (span_ok ?n) (re (Seq' record))"
    using assms by (simp add: wf_regexp_def)
  have "list_all (span_ok (length (RevCom pair (Seq' record)))) (re (RevCom pair (Seq' record)))"
    using assms unfolding wf_regexp_def by blast
  then have r: "list_all (span_ok ?n) (re (RevCom pair (Seq' record)))"
    by (simp add: length_RevCom)
  then have t: "list_all (span_ok ?n)
      (map (\<lambda>loc. [int ?n - loc ! 1, int ?n - loc ! 0]) (re (RevCom pair (Seq' record))))"
    using span_ok_translate [of ?n] by (auto simp: list_all_iff)
  have "locate_pattern pair onlyPositiveStrand record (pName, re) =
     Inr ((if re (Seq' record) \<noteq> []
           then [\<lparr>Record = record, PatternName = pName, Strand = 1,
                   Locations = re (Seq' record)\<rparr>]
           else [])
          @ (if \<not> onlyPositiveStrand \<and> re (RevCom pair (Seq' record)) \<noteq> []
             then [\<lparr>Record = record, PatternName = pName, Strand = - 1,
                     Locations = map (\<lambda>loc. [int (length (Seq' record)) - loc ! 1,
                                               int (length (Seq' record)) - loc ! 0])
                                   (re (RevCom pair (Seq' record)))\<rparr>]
             else []))"
    using f r by (intro locate_pattern_ok) simp_all
  then show ?thesis
    using f t by (simp add: wf_info_def wf_loc_def [abs_def])
qed

lemma locate_record_Inr:
  assumes "locate_record pair regexps onlyPositiveStrand order record = Inr infos"
  shows "\<exists>groups. traverse (locate_pattern pair onlyPositiveStrand record)
                    (range_regexps regexps order) = Inr groups \<and> infos = concat groups"
  using assms by (auto simp: locate_record_def and_then_Inr_iff)

lemma locate_record_total:
  assumes "\<forall>re\<in>ran regexps. wf_regexp re"
  shows "\<exists>infos. locate_record pair regexps onlyPositiveStrand order record = Inr infos
           \<and> list_all wf_info infos"
proof -
  let ?f = "locate_pattern pair onlyPositiveStrand record"
  let ?ps = "range_regexps regexps order"
  have each: "\<exists>infos. ?f p = Inr infos \<and> list_all wf_info infos" if "p \<in> set ?ps" for p
  proof -
    from that have "regexps (fst p) = Some (snd p)" by (auto simp: set_range_regexps)
    then have "snd p \<in> ran regexps" by (auto simp: ran_def)
    with assms have "wf_regexp (snd p)" by simp
    from locate_pattern_total [OF this, of pair onlyPositiveStrand "record" "fst p"]
    show ?thesis by simp
  qed
  then have "\<forall>p\<in>set ?ps. \<exists>infos. ?f p = Inr infos" by blast
  then have t: "traverse ?f ?ps = Inr (map (\<lambda>p. projr (?f p)) ?ps)" by (rule traverse_ok)
  have "list_all wf_info (concat (map (\<lambda>p. projr (?f p)) ?ps))"
    using each by (fastforce simp: list_all_iff)
  with t show ?thesis by (simp add: locate_record_def)
qed

lemma locate_records_total:
  assumes "\<forall>re\<in>ran regexps. wf_regexp re"
  shows "\<exists>infos. locate_records pair regexps onlyPositiveStrand orders i records = Inr infos
           \<and> list_all wf_info infos"
proof (induction records arbitrary: i)
  case Nil
  show ?case by simp
next
  case (Cons r rest)
  from locate_record_total [OF assms, of pair onlyPositiveStrand "orders i" r]
  obtain ls where l: "locate_record pair regexps onlyPositiveStrand (orders i) r = Inr ls"
    and w: "list_all wf_info ls" by blast
  from Cons [of "Suc i"] obtain ls' where
    l': "locate_records pair regexps onlyPositiveStrand orders (Suc i) rest = Inr ls'"
    and w': "list_all wf_info ls'" by blast
  from l l' w w' show ?case by simp
qed

lemma worker_total:
  assumes "\<forall>re\<in>ran regexps. wf_regexp re"
  shows "\<exists>chunk. worker pair regexps onlyPositiveStrand orders batch = Inr chunk
           \<and> wf_chunk chunk \<and> ID chunk = ChunkID batch"
  using locate_records_total [OF assms, of pair onlyPositiveStrand orders 0 "Records batch"]
  by (auto simp: worker_def wf_chunk_def)

lemma workers_total:
  assumes "\<forall>re\<in>ran regexps. wf_regexp re"
  shows "\<exists>results. workers pair regexps onlyPositiveStrand orders batches = Inr results
           \<and> list_all wf_chunk results \<and> map ID results = map ChunkID batches
           \<and> results = map (\<lambda>b. projr (worker pair regexps onlyPositiveStrand
                                           (orders (ChunkID b)) b)) batches"
proof -
  let ?w = "\<lambda>b. worker pair regexps onlyPositiveStrand (orders (ChunkID b)) b"
  have each: "\<exists>chunk. ?w b = Inr chunk \<and> wf_chunk chunk \<and> ID chunk = ChunkID b" for b
    using worker_total [OF assms] by blast
  then have "\<forall>b\<in>set batches. \<exists>chunk. ?w b = Inr chunk" by blast
  then have t: "traverse ?w batches = Inr (map (\<lambda>b. projr (?w b)) batches)"
    by (rule traverse_ok)
  have p: "wf_chunk (projr (?w b)) \<and> ID (projr (?w b)) = ChunkID b" for b
    using each [of b] by auto
  have "list_all wf_chunk (map (\<lambda>b. projr (?w b)) batches)"
    using p by (simp add: list_all_iff)
  moreover have "map ID (map (\<lambda>b. projr (?w b)) batches) = map ChunkID batches"
    using p by simp
  ultimately show ?thesis using t by (simp add: workers_def)
qed

lemma pattern_then_strand_Cons:
  assumes "PatternName x \<noteq> p" and "PatternName y \<noteq> p" and "pattern_then_strand order x y"
  shows "pattern_then_strand (p # order) x y"
  using assms by (auto simp: pattern_then_strand_def)

lemma group_sorted:
  assumes "\<forall>i\<in>set g. PatternName i = p" and "map Strand g \<in> {[], [1], [- 1], [1, - 1]}"
  shows "sorted_wrt (pattern_then_strand order) g"
  using assms by (auto simp: pattern_then_strand_def)

lemma traverse_sorted:
  assumes "distinct order"
    and "traverse (locate_pattern pair onlyPositiveStrand record) (range_regexps regexps order)
           = Inr groups"
  shows "sorted_wrt (pattern_then_strand order) (concat groups)
       \<and> (\<forall>i\<in>set (concat groups). PatternName i \<in> set order)"
  using assms
proof (induction order arbitrary: groups)
  case Nil
  then show ?case by (simp add: range_regexps_Nil)
next
  case (Cons p rest)
  have notin: "p \<notin> set rest" and dist: "distinct rest" using Cons.prems(1) by simp_all
  show ?case
  proof (cases "regexps p")
    case None
    with Cons.prems(2) have t: "traverse (locate_pattern pair onlyPositiveStrand record)
        (range_regexps regexps rest) = Inr groups"
      by (simp add: range_regexps_Cons)
    from Cons.IH [OF dist t] have s: "sorted_wrt (pattern_then_strand rest) (concat groups)"
      and n: "\<forall>i\<in>set (concat groups). PatternName i \<in> set rest" by simp_all
    have "sorted_wrt (pattern_then_strand (p # rest)) (concat groups)"
      using s
    proof (rule sorted_wrt_mono_rel [rotated])
      fix x y assume "x \<in> set (concat groups)" and "y \<in> set (concat groups)"
        and "pattern_then_strand rest x y"
      with n notin show "pattern_then_strand (p # rest) x y"
        by (intro pattern_then_strand_Cons) auto
    qed
    with n show ?thesis by auto
  next
    case (Some re)
    with Cons.prems(2) obtain g gs where
      g: "locate_pattern pair onlyPositiveStrand record (p, re) = Inr g"
      and t: "traverse (locate_pattern pair onlyPositiveStrand record)
        (range_regexps regexps rest) = Inr gs"
      and e: "groups = g # gs"
      by (auto simp: range_regexps_Cons and_then_Inr_iff)
    from Cons.IH [OF dist t] have s: "sorted_wrt (pattern_then_strand rest) (concat gs)"
      and n: "\<forall>i\<in>set (concat gs). PatternName i \<in> set rest" by simp_all
    from locate_pattern_shape [OF g] have names: "\<forall>i\<in>set g. PatternName i = p"
      and strands: "map Strand g \<in> {[], [1], [- 1], [1, - 1]}" by simp_all
    have sg: "sorted_wrt (pattern_then_strand (p # rest)) g"
      using names strands by (rule group_sorted)
    have sr: "sorted_wrt (pattern_then_strand (p # rest)) (concat gs)"
      using s
    proof (rule sorted_wrt_mono_rel [rotated])
      fix x y assume "x \<in> set (concat gs)" and "y \<in> set (concat gs)"
        and "pattern_then_strand rest x y"
      with n notin show "pattern_then_strand (p # rest) x y"
        by (intro pattern_then_strand_Cons) auto
    qed
    have cross: "\<forall>x\<in>set g. \<forall>y\<in>set (concat gs). pattern_then_strand (p # rest) x y"
      using names n notin by (auto simp: pattern_then_strand_def)
    have "sorted_wrt (pattern_then_strand (p # rest)) (g @ concat gs)"
      using sg sr cross by (simp add: sorted_wrt_append)
    moreover have "\<forall>i\<in>set (g @ concat gs). PatternName i \<in> set (p # rest)"
      using names n by auto
    ultimately show ?thesis by (simp add: e)
  qed
qed

lemma locate_record_represented:
  assumes "locate_record pair regexps onlyPositiveStrand order record = Inr infos"
  shows "(\<forall>i\<in>set infos. Record i = record)
       \<and> (infos \<noteq> [] \<longleftrightarrow>
            (\<exists>p\<in>set order. \<exists>re. regexps p = Some re
               \<and> (re (Seq' record) \<noteq> []
                    \<or> (\<not> onlyPositiveStrand \<and> re (RevCom pair (Seq' record)) \<noteq> []))))"
proof -
  let ?f = "locate_pattern pair onlyPositiveStrand record"
  let ?ps = "range_regexps regexps order"
  from locate_record_Inr [OF assms] obtain groups where
    t: "traverse ?f ?ps = Inr groups" and e: "infos = concat groups" by blast
  from traverse_Inr_map [OF t] have g: "groups = map (\<lambda>p. projr (?f p)) ?ps"
    and ok: "\<forall>p\<in>set ?ps. \<exists>y. ?f p = Inr y" by simp_all
  have each: "(\<forall>i\<in>set (projr (?f (n, re))). Record i = record)
      \<and> (projr (?f (n, re)) \<noteq> [] \<longleftrightarrow> re (Seq' record) \<noteq> []
            \<or> (\<not> onlyPositiveStrand \<and> re (RevCom pair (Seq' record)) \<noteq> []))"
    if "(n, re) \<in> set ?ps" for n re
  proof -
    from that ok obtain y where y: "?f (n, re) = Inr y" by blast
    from locate_pattern_shape [OF y] y show ?thesis by simp
  qed
  have "\<forall>i\<in>set infos. Record i = record"
    unfolding e g using each by fastforce
  moreover have "infos \<noteq> [] \<longleftrightarrow> (\<exists>p\<in>set ?ps. projr (?f p) \<noteq> [])"
    unfolding e g by auto
  moreover have "(\<exists>p\<in>set ?ps. projr (?f p) \<noteq> []) \<longleftrightarrow>
      (\<exists>p\<in>set order. \<exists>re. regexps p = Some re
               \<and> (re (Seq' record) \<noteq> []
                    \<or> (\<not> onlyPositiveStrand \<and> re (RevCom pair (Seq' record)) \<noteq> [])))"
    (is "?l \<longleftrightarrow> ?r")
  proof
    assume ?l
    then obtain n re where "(n, re) \<in> set ?ps" and "projr (?f (n, re)) \<noteq> []" by auto
    with each [of n re] show ?r by (auto simp: set_range_regexps)
  next
    assume ?r
    then obtain n re where "n \<in> set order" and "regexps n = Some re"
      and c: "re (Seq' record) \<noteq> []
           \<or> (\<not> onlyPositiveStrand \<and> re (RevCom pair (Seq' record)) \<noteq> [])" by blast
    then have m: "(n, re) \<in> set ?ps" by (simp add: set_range_regexps)
    with each [of n re] c have "projr (?f (n, re)) \<noteq> []" by blast
    with m show ?l by blast
  qed
  ultimately show ?thesis by simp
qed

lemma locate_records_represented:
  assumes "locate_records pair regexps onlyPositiveStrand orders i records = Inr infos"
    and "\<forall>j. set (orders j) = dom regexps"
  shows "Record ` set infos = {r \<in> set records. has_match pair regexps onlyPositiveStrand r}"
  using assms(1)
proof (induction records arbitrary: i infos)
  case Nil
  then show ?case by simp
next
  case (Cons r rest)
  from Cons.prems obtain ls ls' where
    l: "locate_record pair regexps onlyPositiveStrand (orders i) r = Inr ls"
    and l': "locate_records pair regexps onlyPositiveStrand orders (Suc i) rest = Inr ls'"
    and e: "infos = ls @ ls'"
    by (auto simp: and_then_Inr_iff)
  have "has_match pair regexps onlyPositiveStrand r \<longleftrightarrow>
      (\<exists>p\<in>set (orders i). \<exists>re. regexps p = Some re
               \<and> (re (Seq' r) \<noteq> []
                    \<or> (\<not> onlyPositiveStrand \<and> re (RevCom pair (Seq' r)) \<noteq> [])))"
    using assms(2) by (auto simp: has_match_def ran_def dom_def) 
  with locate_record_represented [OF l]
  have a: "\<forall>i\<in>set ls. Record i = r"
    and b: "ls \<noteq> [] \<longleftrightarrow> has_match pair regexps onlyPositiveStrand r" by simp_all
  have "Record ` set ls = (if has_match pair regexps onlyPositiveStrand r then {r} else {})"
    using a b by (cases ls) auto
  moreover have "Record ` set infos = Record ` set ls \<union> Record ` set ls'"
    by (simp add: e image_Un)
  moreover have "{x \<in> set (r # rest). has_match pair regexps onlyPositiveStrand x}
      = (if has_match pair regexps onlyPositiveStrand r then {r} else {})
        \<union> {x \<in> set rest. has_match pair regexps onlyPositiveStrand x}"
    by auto
  ultimately show ?case using Cons.IH [OF l'] by simp
qed

lemma locate_records_Record:
  assumes "locate_records pair regexps onlyPositiveStrand orders i records = Inr infos"
  shows "Record ` set infos \<subseteq> set records"
  using assms
proof (induction records arbitrary: i infos)
  case Nil
  then show ?case by simp
next
  case (Cons r rest)
  from Cons.prems obtain ls ls' where
    l: "locate_record pair regexps onlyPositiveStrand (orders i) r = Inr ls"
    and l': "locate_records pair regexps onlyPositiveStrand orders (Suc i) rest = Inr ls'"
    and e: "infos = ls @ ls'"
    by (auto simp: and_then_Inr_iff)
  from locate_record_represented [OF l] have "\<forall>i\<in>set ls. Record i = r" by simp
  with Cons.IH [OF l'] show ?case by (auto simp: e)
qed

lemma locate_pattern_nonempty:
  assumes "locate_pattern pair onlyPositiveStrand record p = Inr infos"
  shows "\<forall>i\<in>set infos. Locations i \<noteq> []"
  using assms
  by (auto simp: locate_pattern_def Let_def and_then_Inr_iff split: if_splits
      dest!: traverse_Inr_map)

lemma locate_record_nonempty:
  assumes "locate_record pair regexps onlyPositiveStrand order record = Inr infos"
  shows "\<forall>i\<in>set infos. Locations i \<noteq> []"
proof -
  let ?f = "locate_pattern pair onlyPositiveStrand record"
  from locate_record_Inr [OF assms] obtain groups where
    t: "traverse ?f (range_regexps regexps order) = Inr groups"
    and e: "infos = concat groups" by blast
  from traverse_Inr_map [OF t]
  have g: "groups = map (\<lambda>p. projr (?f p)) (range_regexps regexps order)"
    and ok: "\<forall>p\<in>set (range_regexps regexps order). \<exists>y. ?f p = Inr y" by simp_all
  have "\<forall>i\<in>set (projr (?f p)). Locations i \<noteq> []"
    if "p \<in> set (range_regexps regexps order)" for p
  proof -
    from that ok obtain y where y: "?f p = Inr y" by blast
    from locate_pattern_nonempty [OF y] y show ?thesis by simp
  qed
  then show ?thesis unfolding e g by auto
qed

lemma locate_records_nonempty:
  assumes "locate_records pair regexps onlyPositiveStrand orders i records = Inr infos"
  shows "\<forall>i\<in>set infos. Locations i \<noteq> []"
  using assms
proof (induction records arbitrary: i infos)
  case Nil
  then show ?case by simp
next
  case (Cons r rest)
  from Cons.prems obtain ls ls' where
    l: "locate_record pair regexps onlyPositiveStrand (orders i) r = Inr ls"
    and l': "locate_records pair regexps onlyPositiveStrand orders (Suc i) rest = Inr ls'"
    and e: "infos = ls @ ls'"
    by (auto simp: and_then_Inr_iff)
  from locate_record_nonempty [OF l] Cons.IH [OF l'] show ?case by (auto simp: e)
qed

lemma same_keys_same_list:
  assumes "mset xs = mset ys" and "map f xs = map f ys" and "distinct (map f xs)"
  shows "xs = ys"
  using assms
proof (induction xs arbitrary: ys)
  case Nil
  then show ?case by simp
next
  case (Cons x xs)
  from Cons.prems(2) obtain y ys' where ys: "ys = y # ys'" and fx: "f x = f y"
    and m: "map f xs = map f ys'" by (cases ys) auto
  have "x \<in> set ys" using Cons.prems(1) by (metis list.set_intros(1) mset_eq_setD)
  have "x = y"
  proof (rule ccontr)
    assume "x \<noteq> y"
    with \<open>x \<in> set ys\<close> ys have "x \<in> set ys'" by simp
    then have "f x \<in> set (map f ys')" by simp
    with m have "f x \<in> set (map f xs)" by simp
    with Cons.prems(3) show False by simp
  qed
  with Cons.prems(1) ys have "mset xs = mset ys'" by simp
  from Cons.IH [OF this m] Cons.prems(3) \<open>x = y\<close> ys show ?case by simp
qed

lemma receiver_of_results:
  assumes "list_all wf_chunk results"
    and "map (\<lambda>c. unat (ID c)) results = [0..<length results]"
    and "mset arrivals = mset results"
  shows "\<exists>st. receiver pair SubSeq patterns arrivals = Inr st \<and> flushed st = results
           \<and> outfh st = concat (map (rows_of pair SubSeq patterns) results)"
proof -
  have "mset (map (\<lambda>c. unat (ID c)) arrivals) = mset (map (\<lambda>c. unat (ID c)) results)"
    using assms(3) by simp
  then have ids: "mset (map (\<lambda>c. unat (ID c)) arrivals) = mset [0..<length results]"
    using assms(2) by simp
  have "set arrivals = set results" using assms(3) by (rule mset_eq_setD)
  then have wf: "list_all wf_chunk arrivals" using assms(1) by (simp add: list_all_iff)
  from receiver_sorts [OF ids wf, of pair SubSeq patterns] obtain st where
    r: "receiver pair SubSeq patterns arrivals = Inr st"
    and f: "map (\<lambda>c. unat (ID c)) (flushed st) = [0..<length results]"
    and m: "mset (flushed st) = mset arrivals"
    and o: "outfh st = concat (map (rows_of pair SubSeq patterns) (flushed st))"
    by blast
  have "flushed st = results"
  proof (rule same_keys_same_list)
    show "mset (flushed st) = mset results" using m assms(3) by simp
    show "map (\<lambda>c. unat (ID c)) (flushed st) = map (\<lambda>c. unat (ID c)) results"
      using f assms(2) by simp
    show "distinct (map (\<lambda>c. unat (ID c)) (flushed st))" unfolding f by simp
  qed
  with r o show ?thesis by simp
qed

lemma workers_numbered:
  assumes "\<forall>re\<in>ran regexps. wf_regexp re"
    and "map (\<lambda>b. unat (ChunkID b)) batches = [0..<length batches]"
  shows "\<exists>results. workers pair regexps onlyPositiveStrand orders batches = Inr results
           \<and> list_all wf_chunk results
           \<and> map (\<lambda>c. unat (ID c)) results = [0..<length results]
           \<and> map ID results = map ChunkID batches"
proof -
  from workers_total [OF assms(1), of pair onlyPositiveStrand orders batches]
  obtain results where w: "workers pair regexps onlyPositiveStrand orders batches = Inr results"
    and wf: "list_all wf_chunk results" and ids: "map ID results = map ChunkID batches"
    by blast
  have "map (\<lambda>c. unat (ID c)) results = map unat (map ID results)" by simp
  also have "\<dots> = map (\<lambda>b. unat (ChunkID b)) batches" by (simp add: ids)
  also have "\<dots> = [0..<length batches]" by (rule assms(2))
  finally have "map (\<lambda>c. unat (ID c)) results = [0..<length batches]" .
  moreover have "length results = length batches"
    using arg_cong [OF ids, of length] by simp
  ultimately show ?thesis using w wf ids by simp
qed

lemma from_file_dom:
  assumes "from_file lib degenerate ignoreCase (regexps, patterns) records
      = Inr (regexps', patterns')"
  shows "dom regexps' = dom regexps \<union> fst ` set records
       \<and> dom patterns' = dom patterns \<union> fst ` set records"
  using assms
proof (induction records arbitrary: regexps patterns)
  case Nil
  then show ?case by simp
next
  case (Cons entry rest)
  obtain name r where entry: "entry = (name, r)" by (cases entry)
  from Cons.prems obtain re where
    "from_file lib degenerate ignoreCase (regexps(name \<mapsto> re), patterns(name \<mapsto> Seq' r)) rest
       = Inr (regexps', patterns')"
    by (auto simp: entry Let_def and_then_Inr_iff)
  from Cons.IH [OF this] show ?case by (auto simp: entry)
qed

section \<open>The claims\<close>

text \<open>
  In the examples the partner table is that of DNA, or the identity where no reverse
  complement is taken, and \<open>SubSeq\<close> is the 1-based inclusive slice that reads an end of
  0 as the last base.
\<close>

text \<open>
  C1. Ordering invariant of the reorder buffer: when the chunks numbered \<open>0\<close> to
  \<open>N - 1\<close> reach the channel in any order, the receiver ends normally and the sequence
  numbers of the chunks it flushed, those of the final sorted drain included, are
  \<open>0, 1, \<dots>, N - 1\<close> in this order, each exactly once. The chunks hold locations that
  lie within their records, as every chunk built by a worker does.
\<close>

theorem receiver_flushes_in_order:
  assumes "mset (map (\<lambda>c. unat (ID c)) arrivals) = mset [0..<N]"
    and "list_all wf_chunk arrivals"
  shows "\<exists>st. receiver pair SubSeq patterns arrivals = Inr st
           \<and> map (\<lambda>c. unat (ID c)) (flushed st) = [0..<N]"
  using receiver_sorts [OF assms] by blast

theorem receiver_flushes_in_order_witness:
  "mset (map (\<lambda>c. unat (ID c))
      [\<lparr>ID = 2, Data = []\<rparr>,
       \<lparr>ID = 0, Data =
          [\<lparr>Record = \<lparr>RecordID = ''r0'', Seq' = ''ACGT''\<rparr>, PatternName = ''p'',
             Strand = 1, Locations = [[0, 2]]\<rparr>]\<rparr>,
       \<lparr>ID = 1, Data = []\<rparr>]) = mset [0..<3]
   \<and> list_all wf_chunk
      [\<lparr>ID = 2, Data = []\<rparr>,
       \<lparr>ID = 0, Data =
          [\<lparr>Record = \<lparr>RecordID = ''r0'', Seq' = ''ACGT''\<rparr>, PatternName = ''p'',
             Strand = 1, Locations = [[0, 2]]\<rparr>]\<rparr>,
       \<lparr>ID = 1, Data = []\<rparr>]
   \<and> receiver (\<lambda>c. c)
         (\<lambda>s start end. if end = 0 then s
            else take (nat (end - start + 1)) (drop (nat (start - 1)) s))
         Map.empty
      [\<lparr>ID = 2, Data = []\<rparr>,
       \<lparr>ID = 0, Data =
          [\<lparr>Record = \<lparr>RecordID = ''r0'', Seq' = ''ACGT''\<rparr>, PatternName = ''p'',
             Strand = 1, Locations = [[0, 2]]\<rparr>]\<rparr>,
       \<lparr>ID = 1, Data = []\<rparr>]
     = Inr \<lparr>id' = 2, chunks = [2 \<mapsto> \<lparr>ID = 2, Data = []\<rparr>],
            outfh = [\<lparr>col_seqID = ''r0'', col_patternName = ''p'', col_pattern = [],
                        col_strand = 1, col_start = 1, col_end = 2, col_matched = ''AC''\<rparr>],
            flushed = [\<lparr>ID = 0, Data =
                          [\<lparr>Record = \<lparr>RecordID = ''r0'', Seq' = ''ACGT''\<rparr>, PatternName = ''p'',
                             Strand = 1, Locations = [[0, 2]]\<rparr>]\<rparr>,
                       \<lparr>ID = 1, Data = []\<rparr>,
                       \<lparr>ID = 2, Data = []\<rparr>]\<rparr>
   \<and> map (\<lambda>c. unat (ID c))
      [\<lparr>ID = 0, Data =
          [\<lparr>Record = \<lparr>RecordID = ''r0'', Seq' = ''ACGT''\<rparr>, PatternName = ''p'',
             Strand = 1, Locations = [[0, 2]]\<rparr>]\<rparr>,
       \<lparr>ID = 1, Data = []\<rparr>,
       \<lparr>ID = 2, Data = []\<rparr>] = [0..<3]"
proof -
  let ?sub = "(\<lambda>s start end. if end = 0 then s
                 else take (nat (end - start + 1)) (drop (nat (start - 1)) s))"
  let ?c0 = "\<lparr>ID = 0, Data =
                [\<lparr>Record = \<lparr>RecordID = ''r0'', Seq' = ''ACGT''\<rparr>, PatternName = ''p'',
                   Strand = 1, Locations = [[0, 2]]\<rparr>]\<rparr>"
  let ?c1 = "\<lparr>ID = 1, Data = []\<rparr>" and ?c2 = "\<lparr>ID = 2, Data = []\<rparr>"
  let ?st = "\<lparr>id' = 2, chunks = [2 \<mapsto> ?c2],
    outfh = [\<lparr>col_seqID = ''r0'', col_patternName = ''p'', col_pattern = [],
                col_strand = 1, col_start = 1, col_end = 2, col_matched = ''AC''\<rparr>],
    flushed = [?c0, ?c1, ?c2]\<rparr>"
  have h1: "mset (map (\<lambda>c. unat (ID c)) [?c2, ?c0, ?c1]) = mset [0..<3]"
    by code_simp
  have h2: "list_all wf_chunk [?c2, ?c0, ?c1]"
    by (simp add: wf_chunk_def wf_info_def wf_loc_def span_ok_def)
  have e: "receiver (\<lambda>c. c) ?sub Map.empty [?c2, ?c0, ?c1] = Inr ?st"
    by (simp add: receiver_def receive_def init_def cascade.simps flush_def write_chunk_def
        write_info_def location_row_def index_def matched_seq_def slice'_def
        sortLocationChunkMapID_def lookup_chunk_def)
  from receiver_flushes_in_order [OF h1 h2, of "\<lambda>c. c" ?sub Map.empty]
  obtain st where r: "receiver (\<lambda>c. c) ?sub Map.empty [?c2, ?c0, ?c1] = Inr st"
    and f: "map (\<lambda>c. unat (ID c)) (flushed st) = [0..<3]"
    by blast
  from r e have "st = ?st" by simp
  with f have "map (\<lambda>c. unat (ID c)) [?c0, ?c1, ?c2] = [0..<3]"
    by simp
  with h1 h2 e show ?thesis by blast
qed

text \<open>
  C2, as amended. A chunk whose sequence number equals \<open>id\<close> is flushed and \<open>id\<close> is
  incremented, and nothing else happens: the pending map is not looked at. The cascade
  runs when a chunk with another sequence number arrives, before that chunk is stored.
  When every pending chunk is stored under its own sequence number, the cascade flushes
  the pending chunks \<open>cs\<close> found at the keys \<open>id\<close>, \<open>id + 1\<close>, \<dots> in this order, writes
  their rows, removes them from the pending map and leaves \<open>id\<close> at the first key that
  is absent; then the chunk that arrived is stored. With the chunks 0, 1, 2 arriving in
  the order 2, 0, 1, chunk 2 is still pending when the channel closes and is flushed by
  the final drain, after chunks 0 and 1.
\<close>

theorem receive_cascades_before_storing_only:
  "(ID chunk = id' st \<and> write_chunk pair SubSeq patterns chunk = Inr rows \<longrightarrow>
      receive pair SubSeq patterns st chunk =
        Inr (st\<lparr>outfh := outfh st @ rows, flushed := flushed st @ [chunk], id' := id' st + 1\<rparr>))
   \<and> (ID chunk' \<noteq> id' st' \<and> (\<forall>k c. chunks st' k = Some c \<longrightarrow> ID c = k \<and> wf_chunk c) \<longrightarrow>
      (\<exists>cs. (\<forall>i<length cs. chunks st' (id' st' + of_nat i) = Some (cs ! i))
         \<and> distinct (map ID cs)
         \<and> (chunks st' |` (- ID ` set cs)) (id' st' + of_nat (length cs)) = None
         \<and> receive pair SubSeq patterns st' chunk' =
             Inr \<lparr>id' = id' st' + of_nat (length cs),
                  chunks = (chunks st' |` (- ID ` set cs))(ID chunk' \<mapsto> chunk'),
                  outfh = outfh st' @ concat (map (rows_of pair SubSeq patterns) cs),
                  flushed = flushed st' @ cs\<rparr>))
   \<and> (ID c0 = 0 \<and> ID c1 = 1 \<and> ID c2 = 2 \<and> list_all wf_chunk [c0, c1, c2] \<longrightarrow>
      range_ch pair SubSeq patterns init [c2, c0, c1] =
        Inr \<lparr>id' = 2, chunks = [2 \<mapsto> c2],
             outfh = rows_of pair SubSeq patterns c0 @ rows_of pair SubSeq patterns c1,
             flushed = [c0, c1]\<rparr>
      \<and> receiver pair SubSeq patterns [c2, c0, c1] =
        Inr \<lparr>id' = 2, chunks = [2 \<mapsto> c2],
             outfh = rows_of pair SubSeq patterns c0 @ rows_of pair SubSeq patterns c1
                 @ rows_of pair SubSeq patterns c2,
             flushed = [c0, c1, c2]\<rparr>)"
proof (intro conjI impI)
  assume "ID chunk = id' st \<and> write_chunk pair SubSeq patterns chunk = Inr rows"
  then show "receive pair SubSeq patterns st chunk =
        Inr (st\<lparr>outfh := outfh st @ rows, flushed := flushed st @ [chunk], id' := id' st + 1\<rparr>)"
    by (simp add: receive_def flush_def)
next
  assume a: "ID chunk' \<noteq> id' st' \<and> (\<forall>k c. chunks st' k = Some c \<longrightarrow> ID c = k \<and> wf_chunk c)"
  then have "\<forall>k c. chunks st' k = Some c \<longrightarrow> ID c = k \<and> wf_chunk c" by simp
  from cascade_flushes [OF this, of pair SubSeq patterns] obtain cs where
    p: "\<forall>i<length cs. chunks st' (id' st' + of_nat i) = Some (cs ! i)"
    and d: "distinct (map ID cs)"
    and e: "(if id' st' + of_nat (length cs) \<in> ID ` set cs then None
               else chunks st' (id' st' + of_nat (length cs))) = None"
    and r: "cascade pair SubSeq patterns st' =
               Inr \<lparr>id' = id' st' + of_nat (length cs),
                    chunks = (\<lambda>k. if k \<in> ID ` set cs then None else chunks st' k),
                    outfh = outfh st' @ concat (map (rows_of pair SubSeq patterns) cs),
                    flushed = flushed st' @ cs\<rparr>"
    by blast
  have m: "(\<lambda>k. if k \<in> ID ` set cs then None else chunks st' k) = chunks st' |` (- ID ` set cs)"
    by (auto simp: fun_eq_iff restrict_map_def)
  from e have e': "(chunks st' |` (- ID ` set cs)) (id' st' + of_nat (length cs)) = None"
    by (simp add: restrict_map_def split: if_splits)
  have "receive pair SubSeq patterns st' chunk' =
             Inr \<lparr>id' = id' st' + of_nat (length cs),
                  chunks = (chunks st' |` (- ID ` set cs))(ID chunk' \<mapsto> chunk'),
                  outfh = outfh st' @ concat (map (rows_of pair SubSeq patterns) cs),
                  flushed = flushed st' @ cs\<rparr>"
    using a by (simp add: receive_def r m)
  with p d e' show "\<exists>cs. (\<forall>i<length cs. chunks st' (id' st' + of_nat i) = Some (cs ! i))
         \<and> distinct (map ID cs)
         \<and> (chunks st' |` (- ID ` set cs)) (id' st' + of_nat (length cs)) = None
         \<and> receive pair SubSeq patterns st' chunk' =
             Inr \<lparr>id' = id' st' + of_nat (length cs),
                  chunks = (chunks st' |` (- ID ` set cs))(ID chunk' \<mapsto> chunk'),
                  outfh = outfh st' @ concat (map (rows_of pair SubSeq patterns) cs),
                  flushed = flushed st' @ cs\<rparr>"
    by blast
next
  assume a: "ID c0 = 0 \<and> ID c1 = 1 \<and> ID c2 = 2 \<and> list_all wf_chunk [c0, c1, c2]"
  then have wf: "wf_chunk c0" "wf_chunk c1" "wf_chunk c2" by simp_all
  from a show r: "range_ch pair SubSeq patterns init [c2, c0, c1] =
        Inr \<lparr>id' = 2, chunks = [2 \<mapsto> c2],
             outfh = rows_of pair SubSeq patterns c0 @ rows_of pair SubSeq patterns c1,
             flushed = [c0, c1]\<rparr>"
    by (simp add: receive_def init_def cascade.simps flush_ok wf)
  show "receiver pair SubSeq patterns [c2, c0, c1] =
        Inr \<lparr>id' = 2, chunks = [2 \<mapsto> c2],
             outfh = rows_of pair SubSeq patterns c0 @ rows_of pair SubSeq patterns c1
                 @ rows_of pair SubSeq patterns c2,
             flushed = [c0, c1, c2]\<rparr>"
    unfolding receiver_def r
    by (simp add: sortLocationChunkMapID_def lookup_chunk_def flush_ok wf)
qed

theorem receive_cascades_before_storing_only_witness:
  "(ID \<lparr>ID = 0, Data = []\<rparr> = id' init
      \<and> write_chunk (\<lambda>c. c)
            (\<lambda>s start end. if end = 0 then s
               else take (nat (end - start + 1)) (drop (nat (start - 1)) s))
            Map.empty \<lparr>ID = 0, Data = []\<rparr> = Inr [])
   \<and> receive (\<lambda>c. c)
         (\<lambda>s start end. if end = 0 then s
            else take (nat (end - start + 1)) (drop (nat (start - 1)) s))
         Map.empty init \<lparr>ID = 0, Data = []\<rparr>
       = Inr (init\<lparr>outfh := outfh init @ [], flushed := flushed init @ [\<lparr>ID = 0, Data = []\<rparr>],
                id' := id' init + 1\<rparr>)
   \<and> ID \<lparr>ID = 4, Data = []\<rparr>
       \<noteq> id' \<lparr>id' = 1,
                chunks = [1 \<mapsto> \<lparr>ID = 1, Data = []\<rparr>, 3 \<mapsto> \<lparr>ID = 3, Data = []\<rparr>],
                outfh = [], flushed = [\<lparr>ID = 0, Data = []\<rparr>]\<rparr>
   \<and> dom (chunks \<lparr>id' = 1,
                    chunks = [1 \<mapsto> \<lparr>ID = 1, Data = []\<rparr>, 3 \<mapsto> \<lparr>ID = 3, Data = []\<rparr>],
                    outfh = [], flushed = [\<lparr>ID = 0, Data = []\<rparr>]\<rparr>) = {1, 3}
   \<and> ID \<lparr>ID = 1, Data = []\<rparr> = 1 \<and> wf_chunk \<lparr>ID = 1, Data = []\<rparr>
   \<and> ID \<lparr>ID = 3, Data = []\<rparr> = 3 \<and> wf_chunk \<lparr>ID = 3, Data = []\<rparr>
   \<and> receive (\<lambda>c. c)
         (\<lambda>s start end. if end = 0 then s
            else take (nat (end - start + 1)) (drop (nat (start - 1)) s))
         Map.empty
        \<lparr>id' = 1,
           chunks = [1 \<mapsto> \<lparr>ID = 1, Data = []\<rparr>, 3 \<mapsto> \<lparr>ID = 3, Data = []\<rparr>],
           outfh = [], flushed = [\<lparr>ID = 0, Data = []\<rparr>]\<rparr>
        \<lparr>ID = 4, Data = []\<rparr>
       = Inr \<lparr>id' = 2,
              chunks = [3 \<mapsto> \<lparr>ID = 3, Data = []\<rparr>, 4 \<mapsto> \<lparr>ID = 4, Data = []\<rparr>],
              outfh = [], flushed = [\<lparr>ID = 0, Data = []\<rparr>, \<lparr>ID = 1, Data = []\<rparr>]\<rparr>
   \<and> (ID \<lparr>ID = 0, Data = []\<rparr> = 0 \<and> ID \<lparr>ID = 1, Data = []\<rparr> = 1 \<and> ID \<lparr>ID = 2, Data = []\<rparr> = 2
      \<and> list_all wf_chunk [\<lparr>ID = 0, Data = []\<rparr>, \<lparr>ID = 1, Data = []\<rparr>, \<lparr>ID = 2, Data = []\<rparr>])
   \<and> receiver (\<lambda>c. c)
         (\<lambda>s start end. if end = 0 then s
            else take (nat (end - start + 1)) (drop (nat (start - 1)) s))
         Map.empty
        [\<lparr>ID = 2, Data = []\<rparr>, \<lparr>ID = 0, Data = []\<rparr>, \<lparr>ID = 1, Data = []\<rparr>]
       = Inr \<lparr>id' = 2, chunks = [2 \<mapsto> \<lparr>ID = 2, Data = []\<rparr>], outfh = [],
              flushed = [\<lparr>ID = 0, Data = []\<rparr>, \<lparr>ID = 1, Data = []\<rparr>, \<lparr>ID = 2, Data = []\<rparr>]\<rparr>"
proof -
  let ?sub = "(\<lambda>s start end. if end = 0 then s
                 else take (nat (end - start + 1)) (drop (nat (start - 1)) s))"
  let ?c0 = "\<lparr>ID = 0, Data = []\<rparr>" and ?c1 = "\<lparr>ID = 1, Data = []\<rparr>"
    and ?c2 = "\<lparr>ID = 2, Data = []\<rparr>" and ?c3 = "\<lparr>ID = 3, Data = []\<rparr>"
    and ?c4 = "\<lparr>ID = 4, Data = []\<rparr>"
  let ?st' = "\<lparr>id' = 1, chunks = [1 \<mapsto> ?c1, 3 \<mapsto> ?c3], outfh = [], flushed = [?c0]\<rparr>"
  let ?st'' = "\<lparr>id' = 2, chunks = [3 \<mapsto> ?c3, 4 \<mapsto> ?c4], outfh = [],
    flushed = [?c0, ?c1]\<rparr>"
  have h1: "ID ?c0 = id' init \<and> write_chunk (\<lambda>c. c) ?sub Map.empty ?c0 = Inr []"
    by (simp add: init_def write_chunk_def)
  have g: "ID ?c4 \<noteq> id' ?st'" "dom (chunks ?st') = {1, 3}"
    "ID ?c1 = 1 \<and> wf_chunk ?c1" "ID ?c3 = 3 \<and> wf_chunk ?c3"
    by (auto simp: wf_chunk_def)
  have h2: "ID ?c4 \<noteq> id' ?st'
      \<and> (\<forall>k c. chunks ?st' k = Some c \<longrightarrow> ID c = k \<and> wf_chunk c)"
    by (auto simp: wf_chunk_def split: if_splits)
  have h3: "ID ?c0 = 0 \<and> ID ?c1 = 1 \<and> ID ?c2 = 2 \<and> list_all wf_chunk [?c0, ?c1, ?c2]"
    by (simp add: wf_chunk_def)
  have ca: "cascade (\<lambda>c. c) ?sub Map.empty ?st'
      = Inr \<lparr>id' = 2, chunks = [1 \<mapsto> ?c1, 3 \<mapsto> ?c3](1 := None), outfh = [],
             flushed = [?c0, ?c1]\<rparr>"
    by (simp add: cascade.simps flush_def write_chunk_def)
  have mm: "([1 :: 64 word \<mapsto> ?c1, 3 \<mapsto> ?c3](1 := None))(4 \<mapsto> ?c4) = [3 \<mapsto> ?c3, 4 \<mapsto> ?c4]"
    by (auto simp: fun_eq_iff)
  have e: "receive (\<lambda>c. c) ?sub Map.empty ?st' ?c4 = Inr ?st''"
    by (simp add: receive_def ca mm)
  have r: "rows_of (\<lambda>c. c) ?sub Map.empty ?c0 = []" "rows_of (\<lambda>c. c) ?sub Map.empty ?c1 = []"
    "rows_of (\<lambda>c. c) ?sub Map.empty ?c2 = []"
    by (simp_all add: rows_of_def write_chunk_def)
  note t = receive_cascades_before_storing_only
    [of ?c0 init "\<lambda>c. c" ?sub Map.empty "[]" ?c4 ?st' ?c0 ?c1 ?c2]
  from t h1 have a: "receive (\<lambda>c. c) ?sub Map.empty init ?c0
       = Inr (init\<lparr>outfh := outfh init @ [], flushed := flushed init @ [?c0],
                id' := id' init + 1\<rparr>)"
    by blast
  from t h2 obtain cs where
    "receive (\<lambda>c. c) ?sub Map.empty ?st' ?c4 =
       Inr \<lparr>id' = id' ?st' + of_nat (length cs),
            chunks = (chunks ?st' |` (- ID ` set cs))(ID ?c4 \<mapsto> ?c4),
            outfh = outfh ?st' @ concat (map (rows_of (\<lambda>c. c) ?sub Map.empty) cs),
            flushed = flushed ?st' @ cs\<rparr>"
    by blast
  then have "flushed ?st'' = flushed ?st' @ cs"
    unfolding e by (simp only: sum.inject receiver_state.simps)
  then have f: "[?c1] = cs" by simp
  from t h3 have "receiver (\<lambda>c. c) ?sub Map.empty [?c2, ?c0, ?c1]
       = Inr \<lparr>id' = 2, chunks = [2 \<mapsto> ?c2],
              outfh = rows_of (\<lambda>c. c) ?sub Map.empty ?c0 @ rows_of (\<lambda>c. c) ?sub Map.empty ?c1
                  @ rows_of (\<lambda>c. c) ?sub Map.empty ?c2,
              flushed = [?c0, ?c1, ?c2]\<rparr>"
    by blast
  then have c: "receiver (\<lambda>c. c) ?sub Map.empty [?c2, ?c0, ?c1]
       = Inr \<lparr>id' = 2, chunks = [2 \<mapsto> ?c2], outfh = [], flushed = [?c0, ?c1, ?c2]\<rparr>"
    by (simp add: r)
  from h1 a g e f h3 c show ?thesis by blast
qed

text \<open>
  C2 as stated fails: after the arrivals 2, 0, 1 and before the channel closes, the rows
  of chunks 0 and 1 are written and chunk 2 is still in the pending map, although its key
  equals \<open>id\<close>.
\<close>

theorem cascade_on_match_counterexample:
  "range_ch (\<lambda>c. c)
        (\<lambda>s start end. if end = 0 then s
           else take (nat (end - start + 1)) (drop (nat (start - 1)) s))
        Map.empty init
      [\<lparr>ID = 2, Data =
          [\<lparr>Record = \<lparr>RecordID = ''r2'', Seq' = ''ACGT''\<rparr>, PatternName = ''p'',
             Strand = 1, Locations = [[0, 2]]\<rparr>]\<rparr>,
       \<lparr>ID = 0, Data =
          [\<lparr>Record = \<lparr>RecordID = ''r0'', Seq' = ''ACGT''\<rparr>, PatternName = ''p'',
             Strand = 1, Locations = [[0, 2]]\<rparr>]\<rparr>,
       \<lparr>ID = 1, Data =
          [\<lparr>Record = \<lparr>RecordID = ''r1'', Seq' = ''ACGT''\<rparr>, PatternName = ''p'',
             Strand = 1, Locations = [[0, 2]]\<rparr>]\<rparr>]
     = Inr \<lparr>id' = 2,
            chunks = [2 \<mapsto> \<lparr>ID = 2, Data =
                             [\<lparr>Record = \<lparr>RecordID = ''r2'', Seq' = ''ACGT''\<rparr>, PatternName = ''p'',
                                Strand = 1, Locations = [[0, 2]]\<rparr>]\<rparr>],
            outfh = [\<lparr>col_seqID = ''r0'', col_patternName = ''p'', col_pattern = [],
                        col_strand = 1, col_start = 1, col_end = 2, col_matched = ''AC''\<rparr>,
                     \<lparr>col_seqID = ''r1'', col_patternName = ''p'', col_pattern = [],
                        col_strand = 1, col_start = 1, col_end = 2, col_matched = ''AC''\<rparr>],
            flushed = [\<lparr>ID = 0, Data =
                          [\<lparr>Record = \<lparr>RecordID = ''r0'', Seq' = ''ACGT''\<rparr>, PatternName = ''p'',
                             Strand = 1, Locations = [[0, 2]]\<rparr>]\<rparr>,
                       \<lparr>ID = 1, Data =
                          [\<lparr>Record = \<lparr>RecordID = ''r1'', Seq' = ''ACGT''\<rparr>, PatternName = ''p'',
                             Strand = 1, Locations = [[0, 2]]\<rparr>]\<rparr>]\<rparr>"
  by (simp add: receive_def init_def cascade.simps flush_def write_chunk_def write_info_def
      location_row_def index_def matched_seq_def slice'_def)

text \<open>
  C3, as amended. No chunk is lost or repeated: whatever the order in which the results of
  the workers arrive, the receiver flushes each of them exactly once, in the order of the
  chunks read, and the rows it writes are the rows of these chunks in that order. The
  records that a chunk represents are the records of its input chunk that have at least
  one match; every entry of a chunk has at least one location, and the rows of a chunk
  are one row for each location of each entry, with the identifier of the entry's record.
  So a record without any match on the strands searched has no entry in the result and
  no row in the report. Here every regular expression keeps the contract of the engine,
  the reader numbers its chunks from 0, and every \<open>range\<close> statement visits all the
  patterns.
\<close>

theorem chunks_flushed_once_records_with_matches:
  assumes "\<forall>re\<in>ran regexps. wf_regexp re"
    and "map (\<lambda>b. unat (ChunkID b)) batches = [0..<length batches]"
    and "\<forall>cid i. set (orders cid i) = dom regexps"
  shows "\<exists>results. workers pair regexps onlyPositiveStrand orders batches = Inr results
     \<and> map ID results = map ChunkID batches
     \<and> map (\<lambda>chunk. Record ` set (Data chunk)) results
         = map (\<lambda>b. {r \<in> set (Records b). has_match pair regexps onlyPositiveStrand r}) batches
     \<and> list_all (\<lambda>chunk.
          list_all (\<lambda>locationInfo. Locations locationInfo \<noteq> []) (Data chunk)
          \<and> map col_seqID (rows_of pair SubSeq patterns chunk)
              = concat (map (\<lambda>locationInfo.
                   map (\<lambda>loc. RecordID (Record locationInfo)) (Locations locationInfo))
                   (Data chunk))) results
     \<and> (\<forall>arrivals. mset arrivals = mset results \<longrightarrow>
           (\<exists>st. receiver pair SubSeq patterns arrivals = Inr st \<and> flushed st = results
              \<and> outfh st = concat (map (rows_of pair SubSeq patterns) results)))"
proof -
  let ?w = "\<lambda>b. worker pair regexps onlyPositiveStrand (orders (ChunkID b)) b"
  from workers_numbered [OF assms(1,2), of pair onlyPositiveStrand orders]
  obtain results where w: "workers pair regexps onlyPositiveStrand orders batches = Inr results"
    and wf: "list_all wf_chunk results"
    and num: "map (\<lambda>c. unat (ID c)) results = [0..<length results]"
    and ids: "map ID results = map ChunkID batches"
    by blast
  from w have t: "traverse ?w batches = Inr results" by (simp add: workers_def)
  from traverse_Inr_map [OF t] have res: "results = map (\<lambda>b. projr (?w b)) batches"
    and ok: "\<forall>b\<in>set batches. \<exists>chunk. ?w b = Inr chunk" by simp_all
  have each: "Record ` set (Data (projr (?w b)))
      = {r \<in> set (Records b). has_match pair regexps onlyPositiveStrand r}
      \<and> (\<forall>locationInfo\<in>set (Data (projr (?w b))). Locations locationInfo \<noteq> [])"
    if "b \<in> set batches" for b
  proof -
    from that ok obtain chunk where c: "?w b = Inr chunk" by blast
    then obtain infos where
      l: "locate_records pair regexps onlyPositiveStrand (orders (ChunkID b)) 0 (Records b)
            = Inr infos"
      and d: "Data chunk = infos"
      by (auto simp: worker_def and_then_Inr_iff)
    have "\<forall>j. set (orders (ChunkID b) j) = dom regexps" using assms(3) by simp
    from locate_records_represented [OF l this] locate_records_nonempty [OF l] c d
    show ?thesis by simp
  qed
  have recs: "map (\<lambda>chunk. Record ` set (Data chunk)) results
         = map (\<lambda>b. {r \<in> set (Records b). has_match pair regexps onlyPositiveStrand r}) batches"
    unfolding res using each by simp
  have ne: "\<forall>chunk\<in>set results. \<forall>locationInfo\<in>set (Data chunk). Locations locationInfo \<noteq> []"
    unfolding res using each by simp
  have rows: "map col_seqID (rows_of pair SubSeq patterns chunk)
              = concat (map (\<lambda>locationInfo.
                   map (\<lambda>loc. RecordID (Record locationInfo)) (Locations locationInfo))
                   (Data chunk))"
    if "chunk \<in> set results" for chunk
  proof -
    from that wf have "wf_chunk chunk" by (simp add: list_all_iff)
    from write_chunk_rows [OF this, of pair SubSeq patterns] show ?thesis
      by (auto simp: rows_of_def)
  qed
  have per: "list_all (\<lambda>chunk.
          list_all (\<lambda>locationInfo. Locations locationInfo \<noteq> []) (Data chunk)
          \<and> map col_seqID (rows_of pair SubSeq patterns chunk)
              = concat (map (\<lambda>locationInfo.
                   map (\<lambda>loc. RecordID (Record locationInfo)) (Locations locationInfo))
                   (Data chunk))) results"
    using ne rows by (simp add: list_all_iff)
  have "\<forall>arrivals. mset arrivals = mset results \<longrightarrow>
           (\<exists>st. receiver pair SubSeq patterns arrivals = Inr st \<and> flushed st = results
              \<and> outfh st = concat (map (rows_of pair SubSeq patterns) results))"
    using receiver_of_results [OF wf num, of _ pair SubSeq patterns] by blast
  with recs per show ?thesis using w ids by blast
qed

theorem chunks_flushed_once_records_with_matches_witness:
  "wf_regexp (\<lambda>s. if s = ''AACG'' then [[2, 4]] else if s = ''CGTT'' then [[0, 2]] else [])
   \<and> map (\<lambda>b. unat (ChunkID b))
        [\<lparr>ChunkID = 0, Records = [\<lparr>RecordID = ''r1'', Seq' = ''AACG''\<rparr>]\<rparr>,
         \<lparr>ChunkID = 1, Records = [\<lparr>RecordID = ''r2'', Seq' = ''AAAA''\<rparr>]\<rparr>]
       = [0..<length
            [\<lparr>ChunkID = 0, Records = [\<lparr>RecordID = ''r1'', Seq' = ''AACG''\<rparr>]\<rparr>,
             \<lparr>ChunkID = 1, Records = [\<lparr>RecordID = ''r2'', Seq' = ''AAAA''\<rparr>]\<rparr>]]
   \<and> (\<forall>cid i. set ((\<lambda>cid i. [''CG'']) (cid :: 64 word) (i :: nat))
         = dom [''CG'' \<mapsto>
                (\<lambda>s. if s = ''AACG'' then [[2, 4]] else if s = ''CGTT'' then [[0, 2]] else [])])
   \<and> workers (\<lambda>c. case map_of (zip ''ACGT'' ''TGCA'') c of None \<Rightarrow> c | Some d \<Rightarrow> d)
        [''CG'' \<mapsto> (\<lambda>s. if s = ''AACG'' then [[2, 4]] else if s = ''CGTT'' then [[0, 2]] else [])]
        False (\<lambda>cid i. [''CG''])
        [\<lparr>ChunkID = 0, Records = [\<lparr>RecordID = ''r1'', Seq' = ''AACG''\<rparr>]\<rparr>,
         \<lparr>ChunkID = 1, Records = [\<lparr>RecordID = ''r2'', Seq' = ''AAAA''\<rparr>]\<rparr>]
       = Inr [\<lparr>ID = 0, Data =
                 [\<lparr>Record = \<lparr>RecordID = ''r1'', Seq' = ''AACG''\<rparr>, PatternName = ''CG'',
                     Strand = 1, Locations = [[2, 4]]\<rparr>,
                  \<lparr>Record = \<lparr>RecordID = ''r1'', Seq' = ''AACG''\<rparr>, PatternName = ''CG'',
                     Strand = - 1, Locations = [[2, 4]]\<rparr>]\<rparr>,
              \<lparr>ID = 1, Data = []\<rparr>]
   \<and> map ID
        [\<lparr>ID = 0, Data =
            [\<lparr>Record = \<lparr>RecordID = ''r1'', Seq' = ''AACG''\<rparr>, PatternName = ''CG'',
                Strand = 1, Locations = [[2, 4]]\<rparr>,
             \<lparr>Record = \<lparr>RecordID = ''r1'', Seq' = ''AACG''\<rparr>, PatternName = ''CG'',
                Strand = - 1, Locations = [[2, 4]]\<rparr>]\<rparr>,
         \<lparr>ID = 1, Data = []\<rparr>]
       = map ChunkID
           [\<lparr>ChunkID = 0, Records = [\<lparr>RecordID = ''r1'', Seq' = ''AACG''\<rparr>]\<rparr>,
            \<lparr>ChunkID = 1, Records = [\<lparr>RecordID = ''r2'', Seq' = ''AAAA''\<rparr>]\<rparr>]
   \<and> map (\<lambda>chunk. Record ` set (Data chunk))
        [\<lparr>ID = 0, Data =
            [\<lparr>Record = \<lparr>RecordID = ''r1'', Seq' = ''AACG''\<rparr>, PatternName = ''CG'',
                Strand = 1, Locations = [[2, 4]]\<rparr>,
             \<lparr>Record = \<lparr>RecordID = ''r1'', Seq' = ''AACG''\<rparr>, PatternName = ''CG'',
                Strand = - 1, Locations = [[2, 4]]\<rparr>]\<rparr>,
         \<lparr>ID = 1, Data = []\<rparr>]
       = map (\<lambda>b. {r \<in> set (Records b).
                 has_match (\<lambda>c. case map_of (zip ''ACGT'' ''TGCA'') c of None \<Rightarrow> c | Some d \<Rightarrow> d)
                   [''CG'' \<mapsto>
                    (\<lambda>s. if s = ''AACG'' then [[2, 4]] else if s = ''CGTT'' then [[0, 2]] else [])]
                   False r})
           [\<lparr>ChunkID = 0, Records = [\<lparr>RecordID = ''r1'', Seq' = ''AACG''\<rparr>]\<rparr>,
            \<lparr>ChunkID = 1, Records = [\<lparr>RecordID = ''r2'', Seq' = ''AAAA''\<rparr>]\<rparr>]
   \<and> map (\<lambda>chunk. map col_seqID
                 (rows_of (\<lambda>c. case map_of (zip ''ACGT'' ''TGCA'') c of None \<Rightarrow> c | Some d \<Rightarrow> d)
                    (\<lambda>s start end. if end = 0 then s
                       else take (nat (end - start + 1)) (drop (nat (start - 1)) s))
                    [''CG'' \<mapsto> ''CG''] chunk))
        [\<lparr>ID = 0, Data =
            [\<lparr>Record = \<lparr>RecordID = ''r1'', Seq' = ''AACG''\<rparr>, PatternName = ''CG'',
                Strand = 1, Locations = [[2, 4]]\<rparr>,
             \<lparr>Record = \<lparr>RecordID = ''r1'', Seq' = ''AACG''\<rparr>, PatternName = ''CG'',
                Strand = - 1, Locations = [[2, 4]]\<rparr>]\<rparr>,
         \<lparr>ID = 1, Data = []\<rparr>]
       = [[''r1'', ''r1''], []]
   \<and> mset [\<lparr>ID = 1, Data = []\<rparr>,
           \<lparr>ID = 0, Data =
              [\<lparr>Record = \<lparr>RecordID = ''r1'', Seq' = ''AACG''\<rparr>, PatternName = ''CG'',
                  Strand = 1, Locations = [[2, 4]]\<rparr>,
               \<lparr>Record = \<lparr>RecordID = ''r1'', Seq' = ''AACG''\<rparr>, PatternName = ''CG'',
                  Strand = - 1, Locations = [[2, 4]]\<rparr>]\<rparr>]
       = mset [\<lparr>ID = 0, Data =
                  [\<lparr>Record = \<lparr>RecordID = ''r1'', Seq' = ''AACG''\<rparr>, PatternName = ''CG'',
                      Strand = 1, Locations = [[2, 4]]\<rparr>,
                   \<lparr>Record = \<lparr>RecordID = ''r1'', Seq' = ''AACG''\<rparr>, PatternName = ''CG'',
                      Strand = - 1, Locations = [[2, 4]]\<rparr>]\<rparr>,
               \<lparr>ID = 1, Data = []\<rparr>]
   \<and> (\<exists>st. receiver (\<lambda>c. case map_of (zip ''ACGT'' ''TGCA'') c of None \<Rightarrow> c | Some d \<Rightarrow> d)
               (\<lambda>s start end. if end = 0 then s
                  else take (nat (end - start + 1)) (drop (nat (start - 1)) s))
               [''CG'' \<mapsto> ''CG'']
               [\<lparr>ID = 1, Data = []\<rparr>,
                \<lparr>ID = 0, Data =
                   [\<lparr>Record = \<lparr>RecordID = ''r1'', Seq' = ''AACG''\<rparr>, PatternName = ''CG'',
                       Strand = 1, Locations = [[2, 4]]\<rparr>,
                    \<lparr>Record = \<lparr>RecordID = ''r1'', Seq' = ''AACG''\<rparr>, PatternName = ''CG'',
                       Strand = - 1, Locations = [[2, 4]]\<rparr>]\<rparr>]
             = Inr st
          \<and> flushed st
             = [\<lparr>ID = 0, Data =
                   [\<lparr>Record = \<lparr>RecordID = ''r1'', Seq' = ''AACG''\<rparr>, PatternName = ''CG'',
                       Strand = 1, Locations = [[2, 4]]\<rparr>,
                    \<lparr>Record = \<lparr>RecordID = ''r1'', Seq' = ''AACG''\<rparr>, PatternName = ''CG'',
                       Strand = - 1, Locations = [[2, 4]]\<rparr>]\<rparr>,
                \<lparr>ID = 1, Data = []\<rparr>]
          \<and> outfh st
             = [\<lparr>col_seqID = ''r1'', col_patternName = ''CG'', col_pattern = ''CG'',
                   col_strand = 1, col_start = 3, col_end = 4, col_matched = ''CG''\<rparr>,
                \<lparr>col_seqID = ''r1'', col_patternName = ''CG'', col_pattern = ''CG'',
                   col_strand = - 1, col_start = 3, col_end = 4, col_matched = ''CG''\<rparr>])"
proof -
  let ?sub = "(\<lambda>s start end. if end = 0 then s
                 else take (nat (end - start + 1)) (drop (nat (start - 1)) s))"
  let ?re = "(\<lambda>s. if s = ''AACG'' then [[2, 4]] else if s = ''CGTT'' then [[0, 2]] else [])"
  let ?dna = "(\<lambda>c. case map_of (zip ''ACGT'' ''TGCA'') c of None \<Rightarrow> c | Some d \<Rightarrow> d)"
  let ?batches = "[\<lparr>ChunkID = 0, Records = [\<lparr>RecordID = ''r1'', Seq' = ''AACG''\<rparr>]\<rparr>,
                   \<lparr>ChunkID = 1, Records = [\<lparr>RecordID = ''r2'', Seq' = ''AAAA''\<rparr>]\<rparr>]"
  let ?c0 = "\<lparr>ID = 0, Data =
                [\<lparr>Record = \<lparr>RecordID = ''r1'', Seq' = ''AACG''\<rparr>, PatternName = ''CG'',
                    Strand = 1, Locations = [[2, 4]]\<rparr>,
                 \<lparr>Record = \<lparr>RecordID = ''r1'', Seq' = ''AACG''\<rparr>, PatternName = ''CG'',
                    Strand = - 1, Locations = [[2, 4]]\<rparr>]\<rparr>"
  let ?c1 = "\<lparr>ID = 1, Data = []\<rparr>"
  let ?rows = "[\<lparr>col_seqID = ''r1'', col_patternName = ''CG'', col_pattern = ''CG'',
                   col_strand = 1, col_start = 3, col_end = 4, col_matched = ''CG''\<rparr>,
                \<lparr>col_seqID = ''r1'', col_patternName = ''CG'', col_pattern = ''CG'',
                   col_strand = - 1, col_start = 3, col_end = 4, col_matched = ''CG''\<rparr>]"
  have g: "wf_regexp ?re"
    by (simp add: wf_regexp_def span_ok_def)
  have h1: "\<forall>re\<in>ran [''CG'' \<mapsto> ?re]. wf_regexp re"
    using g by simp
  have h2: "map (\<lambda>b. unat (ChunkID b)) ?batches = [0..<length ?batches]"
    by simp
  have h3: "\<forall>cid i. set ((\<lambda>cid i. [''CG'']) (cid :: 64 word) (i :: nat))
      = dom [''CG'' \<mapsto> ?re]"
    by simp
  have w: "workers ?dna [''CG'' \<mapsto> ?re] False (\<lambda>cid i. [''CG'']) ?batches = Inr [?c0, ?c1]"
    by (simp add: workers_def worker_def locate_record_def range_regexps_def locate_pattern_def
        RevCom_def translate_def index_def Let_def)
  have m: "mset [?c1, ?c0] = mset [?c0, ?c1]"
    by (simp add: add_mset_commute)
  have ro: "concat (map (rows_of ?dna ?sub [''CG'' \<mapsto> ''CG'']) [?c0, ?c1]) = ?rows"
    by (simp add: rows_of_def write_chunk_def write_info_def location_row_def index_def
        matched_seq_def slice'_def RevCom_def)
  from chunks_flushed_once_records_with_matches [OF h1 h2 h3,
      of ?dna False ?sub "[''CG'' \<mapsto> ''CG'']"]
  obtain results where
    r: "workers ?dna [''CG'' \<mapsto> ?re] False (\<lambda>cid i. [''CG'']) ?batches = Inr results"
    and p: "map ID results = map ChunkID ?batches"
      "map (\<lambda>chunk. Record ` set (Data chunk)) results
       = map (\<lambda>b. {r \<in> set (Records b). has_match ?dna [''CG'' \<mapsto> ?re] False r}) ?batches"
      "\<forall>arrivals. mset arrivals = mset results \<longrightarrow>
         (\<exists>st. receiver ?dna ?sub [''CG'' \<mapsto> ''CG''] arrivals = Inr st \<and> flushed st = results
            \<and> outfh st = concat (map (rows_of ?dna ?sub [''CG'' \<mapsto> ''CG'']) results))"
    by blast
  from r w have e: "results = [?c0, ?c1]" by simp
  from p(3) m have "\<exists>st. receiver ?dna ?sub [''CG'' \<mapsto> ''CG''] [?c1, ?c0] = Inr st
      \<and> flushed st = [?c0, ?c1]
      \<and> outfh st = concat (map (rows_of ?dna ?sub [''CG'' \<mapsto> ''CG'']) [?c0, ?c1])"
    unfolding e by blast
  then have x: "\<exists>st. receiver ?dna ?sub [''CG'' \<mapsto> ''CG''] [?c1, ?c0] = Inr st
      \<and> flushed st = [?c0, ?c1] \<and> outfh st = ?rows"
    by (simp only: ro)
  have y: "map (\<lambda>chunk. map col_seqID (rows_of ?dna ?sub [''CG'' \<mapsto> ''CG''] chunk)) [?c0, ?c1]
      = [[''r1'', ''r1''], []]"
    by (simp add: rows_of_def write_chunk_def write_info_def location_row_def index_def
        matched_seq_def slice'_def RevCom_def)
  from g h2 h3 w m p(1,2) x y show ?thesis unfolding e by blast
qed

text \<open>
  C3 as stated fails: for a record that no pattern matches on either strand, the worker
  appends nothing (both appends are guarded by \<open>len(found) > 0\<close>), and the receiver
  writes no row for it.
\<close>

theorem record_without_match_counterexample:
  "worker (\<lambda>c. case map_of (zip ''ACGT'' ''TGCA'') c of None \<Rightarrow> c | Some d \<Rightarrow> d)
      [''CG'' \<mapsto> (\<lambda>s. if s = ''AACG'' then [[2, 4]] else if s = ''CGTT'' then [[0, 2]] else [])]
      False (\<lambda>i. [''CG'']) \<lparr>ChunkID = 0, Records = [\<lparr>RecordID = ''r2'', Seq' = ''AAAA''\<rparr>]\<rparr>
     = Inr \<lparr>ID = 0, Data = []\<rparr>
   \<and> receiver (\<lambda>c. case map_of (zip ''ACGT'' ''TGCA'') c of None \<Rightarrow> c | Some d \<Rightarrow> d)
      (\<lambda>s start end. if end = 0 then s
         else take (nat (end - start + 1)) (drop (nat (start - 1)) s))
      [''CG'' \<mapsto> ''CG''] [\<lparr>ID = 0, Data = []\<rparr>]
     = Inr \<lparr>id' = 1, chunks = Map.empty, outfh = [], flushed = [\<lparr>ID = 0, Data = []\<rparr>]\<rparr>"
  by (simp add: worker_def locate_record_def range_regexps_def locate_pattern_def RevCom_def
      receiver_def receive_def init_def flush_def write_chunk_def)

text \<open>
  C4. Strand coordinates: for a record whose sequence has length \<open>L\<close>, every match
  \<open>[a, b)\<close> on the forward strand is written with strand 1, start \<open>a + 1\<close> and end
  \<open>b\<close>; every match \<open>[a, b)\<close> found in the reverse complement is stored as
  \<open>[L - b, L - a)\<close> and written with strand -1, start \<open>L - b + 1\<close> and end \<open>L - a\<close>.
  The matches are those the regular expression returns on the two strands, with bounds
  inside the sequence.
\<close>

theorem strand_coordinates:
  assumes "list_all (span_ok (length (Seq' record))) (re (Seq' record))"
    and "list_all (span_ok (length (Seq' record))) (re (RevCom pair (Seq' record)))"
  shows "\<exists>infos rows.
      locate_pattern pair onlyPositiveStrand record (pName, re) = Inr infos
    \<and> write_chunk pair SubSeq patterns \<lparr>ID = cid, Data = infos\<rparr> = Inr rows
    \<and> map (\<lambda>row. (col_strand row, col_start row, col_end row)) rows
        = map (\<lambda>loc. (1, loc ! 0 + 1, loc ! 1)) (re (Seq' record))
          @ (if onlyPositiveStrand then []
             else map (\<lambda>loc. (- 1, int (length (Seq' record)) - loc ! 1 + 1,
                                 int (length (Seq' record)) - loc ! 0))
                    (re (RevCom pair (Seq' record))))
    \<and> concat (map Locations (filter (\<lambda>locationInfo. Strand locationInfo = - 1) infos))
        = (if onlyPositiveStrand then []
           else map (\<lambda>loc. [int (length (Seq' record)) - loc ! 1,
                               int (length (Seq' record)) - loc ! 0])
                  (re (RevCom pair (Seq' record))))"
proof -
  let ?L = "int (length (Seq' record))"
  let ?found = "re (Seq' record)" and ?found' = "re (RevCom pair (Seq' record))"
  let ?tlocs = "map (\<lambda>loc. [?L - loc ! 1, ?L - loc ! 0]) ?found'"
  let ?fwd = "if ?found \<noteq> []
              then [\<lparr>Record = record, PatternName = pName, Strand = 1, Locations = ?found\<rparr>]
              else []"
  let ?rev = "if \<not> onlyPositiveStrand \<and> ?found' \<noteq> []
              then [\<lparr>Record = record, PatternName = pName, Strand = - 1, Locations = ?tlocs\<rparr>]
              else []"
  have lp: "locate_pattern pair onlyPositiveStrand record (pName, re) = Inr (?fwd @ ?rev)"
    using assms by (intro locate_pattern_ok) simp_all
  have t: "list_all (span_ok (length (Seq' record))) ?tlocs"
    using assms(2) span_ok_translate [of "length (Seq' record)"]
    by (auto simp: list_all_iff)
  have "wf_chunk \<lparr>ID = cid, Data = ?fwd @ ?rev\<rparr>"
    using assms(1) t by (simp add: wf_chunk_def wf_info_def wf_loc_def [abs_def])
  from write_chunk_rows [OF this, of pair SubSeq patterns]
  obtain rows where w: "write_chunk pair SubSeq patterns \<lparr>ID = cid, Data = ?fwd @ ?rev\<rparr> = Inr rows"
    and c: "map (\<lambda>row. (col_strand row, col_start row, col_end row)) rows
        = concat (map (\<lambda>locationInfo.
                    map (\<lambda>loc. (Strand locationInfo, loc ! 0 + 1, loc ! 1))
                      (Locations locationInfo)) (?fwd @ ?rev))"
    by auto
  have "concat (map (\<lambda>locationInfo.
                    map (\<lambda>loc. (Strand locationInfo, loc ! 0 + 1, loc ! 1))
                      (Locations locationInfo)) (?fwd @ ?rev))
      = map (\<lambda>loc. (1, loc ! 0 + 1, loc ! 1)) ?found
          @ (if onlyPositiveStrand then []
             else map (\<lambda>loc. (- 1, ?L - loc ! 1 + 1, ?L - loc ! 0)) ?found')"
    by (simp add: comp_def)
  moreover have "concat (map Locations (filter (\<lambda>locationInfo. Strand locationInfo = - 1) (?fwd
      @ ?rev)))
      = (if onlyPositiveStrand then [] else ?tlocs)"
    by simp
  ultimately show ?thesis using lp w c by (metis (no_types, lifting))
qed

theorem strand_coordinates_witness:
  "list_all (span_ok (length (Seq' \<lparr>RecordID = ''r1'', Seq' = ''AACG''\<rparr>)))
      ((\<lambda>s. if s = ''AACG'' then [[2, 4]] else if s = ''CGTT'' then [[0, 2]] else [])
         (Seq' \<lparr>RecordID = ''r1'', Seq' = ''AACG''\<rparr>))
   \<and> list_all (span_ok (length (Seq' \<lparr>RecordID = ''r1'', Seq' = ''AACG''\<rparr>)))
      ((\<lambda>s. if s = ''AACG'' then [[2, 4]] else if s = ''CGTT'' then [[0, 2]] else [])
         (RevCom (\<lambda>c. case map_of (zip ''ACGT'' ''TGCA'') c of None \<Rightarrow> c | Some d \<Rightarrow> d)
            (Seq' \<lparr>RecordID = ''r1'', Seq' = ''AACG''\<rparr>)))
   \<and> locate_pattern (\<lambda>c. case map_of (zip ''ACGT'' ''TGCA'') c of None \<Rightarrow> c | Some d \<Rightarrow> d)
        False \<lparr>RecordID = ''r1'', Seq' = ''AACG''\<rparr>
        (''CG'', (\<lambda>s. if s = ''AACG'' then [[2, 4]] else if s = ''CGTT'' then [[0, 2]] else []))
       = Inr [\<lparr>Record = \<lparr>RecordID = ''r1'', Seq' = ''AACG''\<rparr>, PatternName = ''CG'',
                 Strand = 1, Locations = [[2, 4]]\<rparr>,
              \<lparr>Record = \<lparr>RecordID = ''r1'', Seq' = ''AACG''\<rparr>, PatternName = ''CG'',
                 Strand = - 1, Locations = [[2, 4]]\<rparr>]
   \<and> write_chunk (\<lambda>c. case map_of (zip ''ACGT'' ''TGCA'') c of None \<Rightarrow> c | Some d \<Rightarrow> d)
        (\<lambda>s start end. if end = 0 then s
           else take (nat (end - start + 1)) (drop (nat (start - 1)) s))
        [''CG'' \<mapsto> ''CG'']
        \<lparr>ID = 0, Data =
           [\<lparr>Record = \<lparr>RecordID = ''r1'', Seq' = ''AACG''\<rparr>, PatternName = ''CG'',
               Strand = 1, Locations = [[2, 4]]\<rparr>,
            \<lparr>Record = \<lparr>RecordID = ''r1'', Seq' = ''AACG''\<rparr>, PatternName = ''CG'',
               Strand = - 1, Locations = [[2, 4]]\<rparr>]\<rparr>
       = Inr [\<lparr>col_seqID = ''r1'', col_patternName = ''CG'', col_pattern = ''CG'',
                 col_strand = 1, col_start = 3, col_end = 4, col_matched = ''CG''\<rparr>,
              \<lparr>col_seqID = ''r1'', col_patternName = ''CG'', col_pattern = ''CG'',
                 col_strand = - 1, col_start = 3, col_end = 4, col_matched = ''CG''\<rparr>]
   \<and> map (\<lambda>row. (col_strand row, col_start row, col_end row))
        [\<lparr>col_seqID = ''r1'', col_patternName = ''CG'', col_pattern = ''CG'',
            col_strand = 1, col_start = 3, col_end = 4, col_matched = ''CG''\<rparr>,
         \<lparr>col_seqID = ''r1'', col_patternName = ''CG'', col_pattern = ''CG'',
            col_strand = - 1, col_start = 3, col_end = 4, col_matched = ''CG''\<rparr>]
       = [(1, 3, 4), (- 1, 3, 4)]
   \<and> concat (map Locations (filter (\<lambda>locationInfo. Strand locationInfo = - 1)
        [\<lparr>Record = \<lparr>RecordID = ''r1'', Seq' = ''AACG''\<rparr>, PatternName = ''CG'',
            Strand = 1, Locations = [[2, 4]]\<rparr>,
         \<lparr>Record = \<lparr>RecordID = ''r1'', Seq' = ''AACG''\<rparr>, PatternName = ''CG'',
            Strand = - 1, Locations = [[2, 4]]\<rparr>]))
       = [[2, 4]]"
proof -
  let ?sub = "(\<lambda>s start end. if end = 0 then s
                 else take (nat (end - start + 1)) (drop (nat (start - 1)) s))"
  let ?re = "(\<lambda>s. if s = ''AACG'' then [[2, 4]] else if s = ''CGTT'' then [[0, 2]] else [])"
  let ?dna = "(\<lambda>c. case map_of (zip ''ACGT'' ''TGCA'') c of None \<Rightarrow> c | Some d \<Rightarrow> d)"
  let ?r = "\<lparr>RecordID = ''r1'', Seq' = ''AACG''\<rparr>"
  let ?infos = "[\<lparr>Record = \<lparr>RecordID = ''r1'', Seq' = ''AACG''\<rparr>, PatternName = ''CG'',
                    Strand = 1, Locations = [[2, 4]]\<rparr>,
                 \<lparr>Record = \<lparr>RecordID = ''r1'', Seq' = ''AACG''\<rparr>, PatternName = ''CG'',
                    Strand = - 1, Locations = [[2, 4]]\<rparr>]"
  let ?rows = "[\<lparr>col_seqID = ''r1'', col_patternName = ''CG'', col_pattern = ''CG'',
                   col_strand = 1, col_start = 3, col_end = 4, col_matched = ''CG''\<rparr>,
                \<lparr>col_seqID = ''r1'', col_patternName = ''CG'', col_pattern = ''CG'',
                   col_strand = - 1, col_start = 3, col_end = 4, col_matched = ''CG''\<rparr>]"
  have h1: "list_all (span_ok (length (Seq' ?r))) (?re (Seq' ?r))"
    by (simp add: span_ok_def)
  have h2: "list_all (span_ok (length (Seq' ?r))) (?re (RevCom ?dna (Seq' ?r)))"
    by (simp add: span_ok_def RevCom_def)
  have e1: "locate_pattern ?dna False ?r (''CG'', ?re) = Inr ?infos"
    by (simp add: locate_pattern_def RevCom_def translate_def index_def Let_def)
  have e2: "write_chunk ?dna ?sub [''CG'' \<mapsto> ''CG''] \<lparr>ID = 0, Data = ?infos\<rparr> = Inr ?rows"
    by (simp add: write_chunk_def write_info_def location_row_def index_def matched_seq_def
        slice'_def RevCom_def)
  from strand_coordinates [OF h1 h2, of False "''CG''" ?sub "[''CG'' \<mapsto> ''CG'']" 0]
  obtain infos rows where
    l: "locate_pattern ?dna False ?r (''CG'', ?re) = Inr infos"
    and w: "write_chunk ?dna ?sub [''CG'' \<mapsto> ''CG''] \<lparr>ID = 0, Data = infos\<rparr> = Inr rows"
    and c: "map (\<lambda>row. (col_strand row, col_start row, col_end row)) rows
        = map (\<lambda>loc. (1, loc ! 0 + 1, loc ! 1)) (?re (Seq' ?r))
          @ (if False then []
             else map (\<lambda>loc. (- 1, int (length (Seq' ?r)) - loc ! 1 + 1,
                                 int (length (Seq' ?r)) - loc ! 0))
                    (?re (RevCom ?dna (Seq' ?r))))"
    and t: "concat (map Locations (filter (\<lambda>locationInfo. Strand locationInfo = - 1) infos))
        = (if False then []
           else map (\<lambda>loc. [int (length (Seq' ?r)) - loc ! 1,
                               int (length (Seq' ?r)) - loc ! 0])
                  (?re (RevCom ?dna (Seq' ?r))))"
    by blast
  from l e1 have i: "infos = ?infos" by simp
  from w e2 have r: "rows = ?rows" unfolding i by simp
  from c have c': "map (\<lambda>row. (col_strand row, col_start row, col_end row)) ?rows
       = [(1, 3, 4), (- 1, 3, 4)]"
    unfolding r by (simp add: RevCom_def)
  from t have t': "concat (map Locations (filter (\<lambda>locationInfo. Strand locationInfo = - 1)
         ?infos)) = [[2, 4]]"
    unfolding i by (simp add: RevCom_def)
  from h1 h2 e1 e2 c' t' show ?thesis by blast
qed

text \<open>
  C5, as amended. With the order in which each \<open>range\<close> statement visits the pattern map
  held fixed, the workers' results are determined by the input, and the rows written are
  the same for every order in which these results arrive: in sequence-number order, as
  with one worker, or in any other order, as with eight. The source does not fix the
  order of the visits; it ranges over a Go map.
\<close>

theorem output_independent_of_arrival_order:
  assumes "\<forall>re\<in>ran regexps. wf_regexp re"
    and "map (\<lambda>b. unat (ChunkID b)) batches = [0..<length batches]"
  shows "\<exists>results. workers pair regexps onlyPositiveStrand orders batches = Inr results
     \<and> (\<forall>arrivals arrivals'. mset arrivals = mset results \<and> mset arrivals' = mset results \<longrightarrow>
           (\<exists>st st'. receiver pair SubSeq patterns arrivals = Inr st
              \<and> receiver pair SubSeq patterns arrivals' = Inr st'
              \<and> outfh st = outfh st'))"
proof -
  from workers_numbered [OF assms, of pair onlyPositiveStrand orders]
  obtain results where w: "workers pair regexps onlyPositiveStrand orders batches = Inr results"
    and wf: "list_all wf_chunk results"
    and num: "map (\<lambda>c. unat (ID c)) results = [0..<length results]"
    by blast
  have "\<exists>st st'. receiver pair SubSeq patterns arrivals = Inr st
              \<and> receiver pair SubSeq patterns arrivals' = Inr st'
              \<and> outfh st = outfh st'"
    if "mset arrivals = mset results" and "mset arrivals' = mset results" for arrivals arrivals'
    using receiver_of_results [OF wf num that(1), of pair SubSeq patterns]
      receiver_of_results [OF wf num that(2), of pair SubSeq patterns]
    by auto
  with w show ?thesis by blast
qed

theorem output_independent_of_arrival_order_witness:
  "wf_regexp (\<lambda>s. if s = ''AACG'' then [[2, 4]] else if s = ''CGTT'' then [[0, 2]] else [])
   \<and> map (\<lambda>b. unat (ChunkID b))
        [\<lparr>ChunkID = 0, Records = [\<lparr>RecordID = ''r1'', Seq' = ''AACG''\<rparr>]\<rparr>,
         \<lparr>ChunkID = 1, Records = [\<lparr>RecordID = ''r2'', Seq' = ''AAAA''\<rparr>]\<rparr>]
       = [0..<length
            [\<lparr>ChunkID = 0, Records = [\<lparr>RecordID = ''r1'', Seq' = ''AACG''\<rparr>]\<rparr>,
             \<lparr>ChunkID = 1, Records = [\<lparr>RecordID = ''r2'', Seq' = ''AAAA''\<rparr>]\<rparr>]]
   \<and> workers (\<lambda>c. case map_of (zip ''ACGT'' ''TGCA'') c of None \<Rightarrow> c | Some d \<Rightarrow> d)
        [''CG'' \<mapsto> (\<lambda>s. if s = ''AACG'' then [[2, 4]] else if s = ''CGTT'' then [[0, 2]] else [])]
        False (\<lambda>cid i. [''CG''])
        [\<lparr>ChunkID = 0, Records = [\<lparr>RecordID = ''r1'', Seq' = ''AACG''\<rparr>]\<rparr>,
         \<lparr>ChunkID = 1, Records = [\<lparr>RecordID = ''r2'', Seq' = ''AAAA''\<rparr>]\<rparr>]
       = Inr [\<lparr>ID = 0, Data =
                 [\<lparr>Record = \<lparr>RecordID = ''r1'', Seq' = ''AACG''\<rparr>, PatternName = ''CG'',
                     Strand = 1, Locations = [[2, 4]]\<rparr>,
                  \<lparr>Record = \<lparr>RecordID = ''r1'', Seq' = ''AACG''\<rparr>, PatternName = ''CG'',
                     Strand = - 1, Locations = [[2, 4]]\<rparr>]\<rparr>,
              \<lparr>ID = 1, Data = []\<rparr>]
   \<and> mset [\<lparr>ID = 1, Data = []\<rparr>,
           \<lparr>ID = 0, Data =
              [\<lparr>Record = \<lparr>RecordID = ''r1'', Seq' = ''AACG''\<rparr>, PatternName = ''CG'',
                  Strand = 1, Locations = [[2, 4]]\<rparr>,
               \<lparr>Record = \<lparr>RecordID = ''r1'', Seq' = ''AACG''\<rparr>, PatternName = ''CG'',
                  Strand = - 1, Locations = [[2, 4]]\<rparr>]\<rparr>]
       = mset [\<lparr>ID = 0, Data =
                  [\<lparr>Record = \<lparr>RecordID = ''r1'', Seq' = ''AACG''\<rparr>, PatternName = ''CG'',
                      Strand = 1, Locations = [[2, 4]]\<rparr>,
                   \<lparr>Record = \<lparr>RecordID = ''r1'', Seq' = ''AACG''\<rparr>, PatternName = ''CG'',
                      Strand = - 1, Locations = [[2, 4]]\<rparr>]\<rparr>,
               \<lparr>ID = 1, Data = []\<rparr>]
   \<and> mset [\<lparr>ID = 0, Data =
              [\<lparr>Record = \<lparr>RecordID = ''r1'', Seq' = ''AACG''\<rparr>, PatternName = ''CG'',
                  Strand = 1, Locations = [[2, 4]]\<rparr>,
               \<lparr>Record = \<lparr>RecordID = ''r1'', Seq' = ''AACG''\<rparr>, PatternName = ''CG'',
                  Strand = - 1, Locations = [[2, 4]]\<rparr>]\<rparr>,
           \<lparr>ID = 1, Data = []\<rparr>]
       = mset [\<lparr>ID = 0, Data =
                  [\<lparr>Record = \<lparr>RecordID = ''r1'', Seq' = ''AACG''\<rparr>, PatternName = ''CG'',
                      Strand = 1, Locations = [[2, 4]]\<rparr>,
                   \<lparr>Record = \<lparr>RecordID = ''r1'', Seq' = ''AACG''\<rparr>, PatternName = ''CG'',
                      Strand = - 1, Locations = [[2, 4]]\<rparr>]\<rparr>,
               \<lparr>ID = 1, Data = []\<rparr>]
   \<and> (\<exists>st st'.
         receiver (\<lambda>c. case map_of (zip ''ACGT'' ''TGCA'') c of None \<Rightarrow> c | Some d \<Rightarrow> d)
            (\<lambda>s start end. if end = 0 then s
               else take (nat (end - start + 1)) (drop (nat (start - 1)) s))
            [''CG'' \<mapsto> ''CG'']
            [\<lparr>ID = 1, Data = []\<rparr>,
             \<lparr>ID = 0, Data =
                [\<lparr>Record = \<lparr>RecordID = ''r1'', Seq' = ''AACG''\<rparr>, PatternName = ''CG'',
                    Strand = 1, Locations = [[2, 4]]\<rparr>,
                 \<lparr>Record = \<lparr>RecordID = ''r1'', Seq' = ''AACG''\<rparr>, PatternName = ''CG'',
                    Strand = - 1, Locations = [[2, 4]]\<rparr>]\<rparr>]
           = Inr st
         \<and> receiver (\<lambda>c. case map_of (zip ''ACGT'' ''TGCA'') c of None \<Rightarrow> c | Some d \<Rightarrow> d)
            (\<lambda>s start end. if end = 0 then s
               else take (nat (end - start + 1)) (drop (nat (start - 1)) s))
            [''CG'' \<mapsto> ''CG'']
            [\<lparr>ID = 0, Data =
                [\<lparr>Record = \<lparr>RecordID = ''r1'', Seq' = ''AACG''\<rparr>, PatternName = ''CG'',
                    Strand = 1, Locations = [[2, 4]]\<rparr>,
                 \<lparr>Record = \<lparr>RecordID = ''r1'', Seq' = ''AACG''\<rparr>, PatternName = ''CG'',
                    Strand = - 1, Locations = [[2, 4]]\<rparr>]\<rparr>,
             \<lparr>ID = 1, Data = []\<rparr>]
           = Inr st'
         \<and> outfh st = outfh st')"
proof -
  let ?sub = "(\<lambda>s start end. if end = 0 then s
                 else take (nat (end - start + 1)) (drop (nat (start - 1)) s))"
  let ?re = "(\<lambda>s. if s = ''AACG'' then [[2, 4]] else if s = ''CGTT'' then [[0, 2]] else [])"
  let ?dna = "(\<lambda>c. case map_of (zip ''ACGT'' ''TGCA'') c of None \<Rightarrow> c | Some d \<Rightarrow> d)"
  let ?batches = "[\<lparr>ChunkID = 0, Records = [\<lparr>RecordID = ''r1'', Seq' = ''AACG''\<rparr>]\<rparr>,
                   \<lparr>ChunkID = 1, Records = [\<lparr>RecordID = ''r2'', Seq' = ''AAAA''\<rparr>]\<rparr>]"
  let ?c0 = "\<lparr>ID = 0, Data =
                [\<lparr>Record = \<lparr>RecordID = ''r1'', Seq' = ''AACG''\<rparr>, PatternName = ''CG'',
                    Strand = 1, Locations = [[2, 4]]\<rparr>,
                 \<lparr>Record = \<lparr>RecordID = ''r1'', Seq' = ''AACG''\<rparr>, PatternName = ''CG'',
                    Strand = - 1, Locations = [[2, 4]]\<rparr>]\<rparr>"
  let ?c1 = "\<lparr>ID = 1, Data = []\<rparr>"
  have g: "wf_regexp ?re"
    by (simp add: wf_regexp_def span_ok_def)
  have h1: "\<forall>re\<in>ran [''CG'' \<mapsto> ?re]. wf_regexp re"
    using g by simp
  have h2: "map (\<lambda>b. unat (ChunkID b)) ?batches = [0..<length ?batches]"
    by simp
  have w: "workers ?dna [''CG'' \<mapsto> ?re] False (\<lambda>cid i. [''CG'']) ?batches = Inr [?c0, ?c1]"
    by (simp add: workers_def worker_def locate_record_def range_regexps_def locate_pattern_def
        RevCom_def translate_def index_def Let_def)
  have m: "mset [?c1, ?c0] = mset [?c0, ?c1]"
    by (simp add: add_mset_commute)
  from output_independent_of_arrival_order [OF h1 h2,
      of ?dna False "\<lambda>cid i. [''CG'']" ?sub "[''CG'' \<mapsto> ''CG'']"]
  obtain results where
    r: "workers ?dna [''CG'' \<mapsto> ?re] False (\<lambda>cid i. [''CG'']) ?batches = Inr results"
    and p: "\<forall>arrivals arrivals'.
         mset arrivals = mset results \<and> mset arrivals' = mset results \<longrightarrow>
           (\<exists>st st'. receiver ?dna ?sub [''CG'' \<mapsto> ''CG''] arrivals = Inr st
              \<and> receiver ?dna ?sub [''CG'' \<mapsto> ''CG''] arrivals' = Inr st'
              \<and> outfh st = outfh st')"
    by blast
  from r w have e: "results = [?c0, ?c1]" by simp
  from p m have "\<exists>st st'. receiver ?dna ?sub [''CG'' \<mapsto> ''CG''] [?c1, ?c0] = Inr st
      \<and> receiver ?dna ?sub [''CG'' \<mapsto> ''CG''] [?c0, ?c1] = Inr st'
      \<and> outfh st = outfh st'"
    unfolding e by blast
  with g h2 w m show ?thesis by blast
qed

text \<open>
  C5 as stated fails: two runs on the same record and the same two patterns, whose
  \<open>range\<close> statements visit the pattern map in different orders, write the same two
  rows in different orders.
\<close>

theorem pattern_order_changes_output_counterexample:
  "workers (\<lambda>c. c)
      [''AA'' \<mapsto> (\<lambda>s. if s = ''AACG'' then [[0, 2]] else []),
       ''CG'' \<mapsto> (\<lambda>s. if s = ''AACG'' then [[2, 4]] else [])]
      True (\<lambda>cid i. [''AA'', ''CG''])
      [\<lparr>ChunkID = 0, Records = [\<lparr>RecordID = ''r1'', Seq' = ''AACG''\<rparr>]\<rparr>]
     = Inr [\<lparr>ID = 0, Data =
              [\<lparr>Record = \<lparr>RecordID = ''r1'', Seq' = ''AACG''\<rparr>, PatternName = ''AA'',
                  Strand = 1, Locations = [[0, 2]]\<rparr>,
               \<lparr>Record = \<lparr>RecordID = ''r1'', Seq' = ''AACG''\<rparr>, PatternName = ''CG'',
                  Strand = 1, Locations = [[2, 4]]\<rparr>]\<rparr>]
   \<and> workers (\<lambda>c. c)
      [''AA'' \<mapsto> (\<lambda>s. if s = ''AACG'' then [[0, 2]] else []),
       ''CG'' \<mapsto> (\<lambda>s. if s = ''AACG'' then [[2, 4]] else [])]
      True (\<lambda>cid i. [''CG'', ''AA''])
      [\<lparr>ChunkID = 0, Records = [\<lparr>RecordID = ''r1'', Seq' = ''AACG''\<rparr>]\<rparr>]
     = Inr [\<lparr>ID = 0, Data =
              [\<lparr>Record = \<lparr>RecordID = ''r1'', Seq' = ''AACG''\<rparr>, PatternName = ''CG'',
                  Strand = 1, Locations = [[2, 4]]\<rparr>,
               \<lparr>Record = \<lparr>RecordID = ''r1'', Seq' = ''AACG''\<rparr>, PatternName = ''AA'',
                  Strand = 1, Locations = [[0, 2]]\<rparr>]\<rparr>]
   \<and> map_sum (\<lambda>e. e) outfh
      (receiver (\<lambda>c. c)
         (\<lambda>s start end. if end = 0 then s
            else take (nat (end - start + 1)) (drop (nat (start - 1)) s))
         [''AA'' \<mapsto> ''AA'', ''CG'' \<mapsto> ''CG'']
         [\<lparr>ID = 0, Data =
            [\<lparr>Record = \<lparr>RecordID = ''r1'', Seq' = ''AACG''\<rparr>, PatternName = ''AA'',
                Strand = 1, Locations = [[0, 2]]\<rparr>,
             \<lparr>Record = \<lparr>RecordID = ''r1'', Seq' = ''AACG''\<rparr>, PatternName = ''CG'',
                Strand = 1, Locations = [[2, 4]]\<rparr>]\<rparr>])
     = Inr [\<lparr>col_seqID = ''r1'', col_patternName = ''AA'', col_pattern = ''AA'',
               col_strand = 1, col_start = 1, col_end = 2, col_matched = ''AA''\<rparr>,
            \<lparr>col_seqID = ''r1'', col_patternName = ''CG'', col_pattern = ''CG'',
               col_strand = 1, col_start = 3, col_end = 4, col_matched = ''CG''\<rparr>]
   \<and> map_sum (\<lambda>e. e) outfh
      (receiver (\<lambda>c. c)
         (\<lambda>s start end. if end = 0 then s
            else take (nat (end - start + 1)) (drop (nat (start - 1)) s))
         [''AA'' \<mapsto> ''AA'', ''CG'' \<mapsto> ''CG'']
         [\<lparr>ID = 0, Data =
            [\<lparr>Record = \<lparr>RecordID = ''r1'', Seq' = ''AACG''\<rparr>, PatternName = ''CG'',
                Strand = 1, Locations = [[2, 4]]\<rparr>,
             \<lparr>Record = \<lparr>RecordID = ''r1'', Seq' = ''AACG''\<rparr>, PatternName = ''AA'',
                Strand = 1, Locations = [[0, 2]]\<rparr>]\<rparr>])
     = Inr [\<lparr>col_seqID = ''r1'', col_patternName = ''CG'', col_pattern = ''CG'',
               col_strand = 1, col_start = 3, col_end = 4, col_matched = ''CG''\<rparr>,
            \<lparr>col_seqID = ''r1'', col_patternName = ''AA'', col_pattern = ''AA'',
               col_strand = 1, col_start = 1, col_end = 2, col_matched = ''AA''\<rparr>]
   \<and> [\<lparr>col_seqID = ''r1'', col_patternName = ''AA'', col_pattern = ''AA'',
         col_strand = 1, col_start = 1, col_end = 2, col_matched = ''AA''\<rparr>,
       \<lparr>col_seqID = ''r1'', col_patternName = ''CG'', col_pattern = ''CG'',
          col_strand = 1, col_start = 3, col_end = 4, col_matched = ''CG''\<rparr>]
     \<noteq> [\<lparr>col_seqID = ''r1'', col_patternName = ''CG'', col_pattern = ''CG'',
           col_strand = 1, col_start = 3, col_end = 4, col_matched = ''CG''\<rparr>,
         \<lparr>col_seqID = ''r1'', col_patternName = ''AA'', col_pattern = ''AA'',
            col_strand = 1, col_start = 1, col_end = 2, col_matched = ''AA''\<rparr>]"
  by (simp add: workers_def worker_def locate_record_def range_regexps_def locate_pattern_def
      receiver_def receive_def init_def flush_def write_chunk_def write_info_def
      location_row_def index_def matched_seq_def slice'_def)

text \<open>
  C6, as amended. When the sequence numbers that arrive are unique and contiguous from 0,
  then at every arrival: the keys of the pending map are not below \<open>id\<close>, before and
  after the arrival; the sequence number that arrives is not below \<open>id\<close>; and a chunk
  that is stored has a sequence number strictly above the value \<open>id\<close> had when it
  arrived and not below the value \<open>id\<close> has when it is stored.
\<close>

theorem pending_keys_not_below_id:
  assumes "mset (map (\<lambda>c. unat (ID c)) arrivals) = mset [0..<N]"
    and "list_all wf_chunk arrivals"
    and "arrivals = rs @ chunk # rest"
  shows "\<exists>st st'. range_ch pair SubSeq patterns init rs = Inr st
           \<and> receive pair SubSeq patterns st chunk = Inr st'
           \<and> (\<forall>k\<in>dom (chunks st). id' st \<le> k)
           \<and> id' st \<le> ID chunk
           \<and> (ID chunk \<noteq> id' st \<longrightarrow> id' st < ID chunk \<and> chunks st' (ID chunk) = Some chunk
                  \<and> id' st' \<le> ID chunk)
           \<and> (\<forall>k\<in>dom (chunks st'). id' st' \<le> k)"
proof -
  have dist: "distinct (map ID arrivals)" using assms(1) by (rule distinct_ids)
  have d1: "distinct (map ID ([] @ rs))" using dist assms(3) by simp
  have w1: "list_all wf_chunk ([] @ rs)" using assms(2,3) by simp
  from range_ch_inv [OF inv_init d1 w1, of pair SubSeq patterns]
  obtain st where r: "range_ch pair SubSeq patterns init rs
      = Inr st" and i: "receiver_inv pair SubSeq patterns rs st"
    by auto
  have fresh: "ID chunk \<notin> ID ` set rs" using dist assms(3) by auto
  have d2: "distinct (map ID (rs @ [chunk]))" using dist assms(3) by simp
  have w2: "list_all wf_chunk (rs @ [chunk])" using assms(2,3) by simp
  from range_ch_inv [OF i d2 w2]
  obtain st' where r': "receive pair SubSeq patterns st chunk = Inr st'"
    and i': "receiver_inv pair SubSeq patterns (rs @ [chunk]) st'"
    by (auto simp: and_then_Inr_iff)
  have sub: "set (flushed st) \<subseteq> set rs" using i by (simp add: receiver_inv_def)
  then have nf: "ID chunk \<notin> ID ` set (flushed st)" using fresh by auto
  have ge: "id' st \<le> ID chunk" using i nf by (rule inv_pending_ge)
  have stored: "id' st < ID chunk \<and> chunks st' (ID chunk) = Some chunk \<and> id' st' \<le> ID chunk"
    if ne: "ID chunk \<noteq> id' st"
  proof -
    from r' ne obtain st1 where c: "cascade pair SubSeq patterns st = Inr st1"
      and e: "st' = st1\<lparr>chunks := (chunks st1)(ID chunk \<mapsto> chunk)\<rparr>"
      by (auto simp: receive_def and_then_Inr_iff)
    from e have "chunks st' (ID chunk) = Some chunk" by simp
    moreover from this have "id' st' \<le> ID chunk"
      using inv_pending_keys [OF i'] by blast
    moreover have "id' st < ID chunk" using ge ne by simp
    ultimately show ?thesis by simp
  qed
  show ?thesis
    using r r' ge stored inv_pending_keys [OF i] inv_pending_keys [OF i'] by blast
qed

theorem pending_keys_not_below_id_witness:
  "mset (map (\<lambda>c. unat (ID c)) [\<lparr>ID = 1, Data = []\<rparr>, \<lparr>ID = 0, Data = []\<rparr>, \<lparr>ID = 2, Data = []\<rparr>])
       = mset [0..<3]
   \<and> list_all wf_chunk [\<lparr>ID = 1, Data = []\<rparr>, \<lparr>ID = 0, Data = []\<rparr>, \<lparr>ID = 2, Data = []\<rparr>]
   \<and> [\<lparr>ID = 1, Data = []\<rparr>, \<lparr>ID = 0, Data = []\<rparr>, \<lparr>ID = 2, Data = []\<rparr>]
       = [\<lparr>ID = 1, Data = []\<rparr>, \<lparr>ID = 0, Data = []\<rparr>] @ \<lparr>ID = 2, Data = []\<rparr> # []
   \<and> range_ch (\<lambda>c. c)
         (\<lambda>s start end. if end = 0 then s
            else take (nat (end - start + 1)) (drop (nat (start - 1)) s))
         Map.empty init [\<lparr>ID = 1, Data = []\<rparr>, \<lparr>ID = 0, Data = []\<rparr>]
       = Inr \<lparr>id' = 1, chunks = [1 \<mapsto> \<lparr>ID = 1, Data = []\<rparr>], outfh = [],
                flushed = [\<lparr>ID = 0, Data = []\<rparr>]\<rparr>
   \<and> receive (\<lambda>c. c)
         (\<lambda>s start end. if end = 0 then s
            else take (nat (end - start + 1)) (drop (nat (start - 1)) s))
         Map.empty
        \<lparr>id' = 1, chunks = [1 \<mapsto> \<lparr>ID = 1, Data = []\<rparr>], outfh = [],
           flushed = [\<lparr>ID = 0, Data = []\<rparr>]\<rparr>
        \<lparr>ID = 2, Data = []\<rparr>
       = Inr \<lparr>id' = 2, chunks = [2 \<mapsto> \<lparr>ID = 2, Data = []\<rparr>], outfh = [],
                flushed = [\<lparr>ID = 0, Data = []\<rparr>, \<lparr>ID = 1, Data = []\<rparr>]\<rparr>
   \<and> dom (chunks \<lparr>id' = 1, chunks = [1 \<mapsto> \<lparr>ID = 1, Data = []\<rparr>], outfh = [],
                    flushed = [\<lparr>ID = 0, Data = []\<rparr>]\<rparr>) = {1}
   \<and> id' \<lparr>id' = 1, chunks = [1 \<mapsto> \<lparr>ID = 1, Data = []\<rparr>], outfh = [],
            flushed = [\<lparr>ID = 0, Data = []\<rparr>]\<rparr> \<le> 1
   \<and> id' \<lparr>id' = 1, chunks = [1 \<mapsto> \<lparr>ID = 1, Data = []\<rparr>], outfh = [],
            flushed = [\<lparr>ID = 0, Data = []\<rparr>]\<rparr> \<le> ID \<lparr>ID = 2, Data = []\<rparr>
   \<and> ID \<lparr>ID = 2, Data = []\<rparr> \<noteq> id' \<lparr>id' = 1, chunks = [1 \<mapsto> \<lparr>ID = 1, Data = []\<rparr>], outfh = [],
                                     flushed = [\<lparr>ID = 0, Data = []\<rparr>]\<rparr>
   \<and> id' \<lparr>id' = 1, chunks = [1 \<mapsto> \<lparr>ID = 1, Data = []\<rparr>], outfh = [],
            flushed = [\<lparr>ID = 0, Data = []\<rparr>]\<rparr> < ID \<lparr>ID = 2, Data = []\<rparr>
   \<and> chunks \<lparr>id' = 2, chunks = [2 \<mapsto> \<lparr>ID = 2, Data = []\<rparr>], outfh = [],
               flushed = [\<lparr>ID = 0, Data = []\<rparr>, \<lparr>ID = 1, Data = []\<rparr>]\<rparr> (ID \<lparr>ID = 2, Data = []\<rparr>)
       = Some \<lparr>ID = 2, Data = []\<rparr>
   \<and> id' \<lparr>id' = 2, chunks = [2 \<mapsto> \<lparr>ID = 2, Data = []\<rparr>], outfh = [],
            flushed = [\<lparr>ID = 0, Data = []\<rparr>, \<lparr>ID = 1, Data = []\<rparr>]\<rparr> \<le> ID \<lparr>ID = 2, Data = []\<rparr>
   \<and> dom (chunks \<lparr>id' = 2, chunks = [2 \<mapsto> \<lparr>ID = 2, Data = []\<rparr>], outfh = [],
                    flushed = [\<lparr>ID = 0, Data = []\<rparr>, \<lparr>ID = 1, Data = []\<rparr>]\<rparr>) = {2}
   \<and> id' \<lparr>id' = 2, chunks = [2 \<mapsto> \<lparr>ID = 2, Data = []\<rparr>], outfh = [],
            flushed = [\<lparr>ID = 0, Data = []\<rparr>, \<lparr>ID = 1, Data = []\<rparr>]\<rparr> \<le> 2"
proof -
  let ?sub = "(\<lambda>s start end. if end = 0 then s
                 else take (nat (end - start + 1)) (drop (nat (start - 1)) s))"
  let ?c0 = "\<lparr>ID = 0, Data = []\<rparr>" and ?c1 = "\<lparr>ID = 1, Data = []\<rparr>" and ?c2 = "\<lparr>ID = 2, Data = []\<rparr>"
  let ?st = "\<lparr>id' = 1, chunks = [1 \<mapsto> ?c1], outfh = [], flushed = [?c0]\<rparr>"
  let ?st' = "\<lparr>id' = 2, chunks = [2 \<mapsto> ?c2], outfh = [], flushed = [?c0, ?c1]\<rparr>"
  have h1: "mset (map (\<lambda>c. unat (ID c)) [?c1, ?c0, ?c2]) = mset [0..<3]"
    by code_simp
  have h2: "list_all wf_chunk [?c1, ?c0, ?c2]"
    by (simp add: wf_chunk_def)
  have h3: "[?c1, ?c0, ?c2] = [?c1, ?c0] @ ?c2 # []"
    by simp
  have e1: "range_ch (\<lambda>c. c) ?sub Map.empty init [?c1, ?c0] = Inr ?st"
    by (simp add: receive_def init_def cascade.simps flush_def write_chunk_def)
  have e2: "receive (\<lambda>c. c) ?sub Map.empty ?st ?c2 = Inr ?st'"
    by (simp add: receive_def cascade.simps flush_def write_chunk_def)
  have d: "dom (chunks ?st) = {1}" "dom (chunks ?st') = {2}" "ID ?c2 \<noteq> id' ?st"
    by simp_all
  from pending_keys_not_below_id [OF h1 h2 h3, of "\<lambda>c. c" ?sub Map.empty]
  obtain st st' where r: "range_ch (\<lambda>c. c) ?sub Map.empty init [?c1, ?c0] = Inr st"
    and r': "receive (\<lambda>c. c) ?sub Map.empty st ?c2 = Inr st'"
    and p: "\<forall>k\<in>dom (chunks st). id' st \<le> k" "id' st \<le> ID ?c2"
      "ID ?c2 \<noteq> id' st \<longrightarrow> id' st < ID ?c2 \<and> chunks st' (ID ?c2) = Some ?c2
          \<and> id' st' \<le> ID ?c2"
      "\<forall>k\<in>dom (chunks st'). id' st' \<le> k"
    by blast
  from r e1 have s: "st = ?st" by simp
  from r' e2 have s': "st' = ?st'" unfolding s by simp
  from p(1) have a: "id' ?st \<le> 1" unfolding s d(1) by blast
  from p(4) have b: "id' ?st' \<le> 2" unfolding s' d(2) by blast
  from p(3) d(3) have c: "id' ?st < ID ?c2" "chunks ?st' (ID ?c2) = Some ?c2"
    "id' ?st' \<le> ID ?c2"
    unfolding s s' by blast+
  from p(2) have g: "id' ?st \<le> ID ?c2" unfolding s .
  from h1 h2 h3 e1 e2 d a b c g show ?thesis by blast
qed

text \<open>
  C6 as stated fails: with the arrivals 1, 0, 2 the cascade that precedes the storing of
  chunk 2 raises \<open>id\<close> to 2, so the key 2 is stored when \<open>id\<close> equals it.
\<close>

theorem pending_key_strictly_greater_counterexample:
  "range_ch (\<lambda>c. c)
        (\<lambda>s start end. if end = 0 then s
           else take (nat (end - start + 1)) (drop (nat (start - 1)) s))
        Map.empty init [\<lparr>ID = 1, Data = []\<rparr>, \<lparr>ID = 0, Data = []\<rparr>]
     = Inr \<lparr>id' = 1, chunks = [1 \<mapsto> \<lparr>ID = 1, Data = []\<rparr>], outfh = [],
              flushed = [\<lparr>ID = 0, Data = []\<rparr>]\<rparr>
   \<and> cascade (\<lambda>c. c)
         (\<lambda>s start end. if end = 0 then s
            else take (nat (end - start + 1)) (drop (nat (start - 1)) s))
         Map.empty
        \<lparr>id' = 1, chunks = [1 \<mapsto> \<lparr>ID = 1, Data = []\<rparr>], outfh = [],
           flushed = [\<lparr>ID = 0, Data = []\<rparr>]\<rparr>
     = Inr \<lparr>id' = 2, chunks = Map.empty, outfh = [],
            flushed = [\<lparr>ID = 0, Data = []\<rparr>, \<lparr>ID = 1, Data = []\<rparr>]\<rparr>
   \<and> receive (\<lambda>c. c)
         (\<lambda>s start end. if end = 0 then s
            else take (nat (end - start + 1)) (drop (nat (start - 1)) s))
         Map.empty
        \<lparr>id' = 1, chunks = [1 \<mapsto> \<lparr>ID = 1, Data = []\<rparr>], outfh = [],
           flushed = [\<lparr>ID = 0, Data = []\<rparr>]\<rparr>
        \<lparr>ID = 2, Data = []\<rparr>
     = Inr \<lparr>id' = 2, chunks = [2 \<mapsto> \<lparr>ID = 2, Data = []\<rparr>], outfh = [],
              flushed = [\<lparr>ID = 0, Data = []\<rparr>, \<lparr>ID = 1, Data = []\<rparr>]\<rparr>
   \<and> \<not> ((2 :: 64 word) < ID \<lparr>ID = 2, Data = []\<rparr>)"
  by (simp add: receive_def init_def cascade.simps flush_def write_chunk_def)

text \<open>
  C7, as amended. The rows written for a chunk of a worker are, in order, one row for each
  stored span \<open>[lo, hi)\<close> of the chunk, with \<open>start = lo + 1\<close> and \<open>end = hi\<close>: the
  bounds are 1-based and inclusive on both ends. For every row \<open>start\<close> is at least 1,
  \<open>end\<close> is at most the length of the record's sequence and \<open>start \<le> end + 1\<close>;
  \<open>start \<le> end\<close> holds exactly for the rows of the spans that are not empty. A match
  of width zero is written with \<open>start = end + 1\<close>.
\<close>

theorem rows_start_end_inclusive:
  assumes "\<forall>re\<in>ran regexps. wf_regexp re"
  shows "\<exists>chunk rows. worker pair regexps onlyPositiveStrand orders batch = Inr chunk
       \<and> write_chunk pair SubSeq patterns chunk = Inr rows
       \<and> list_all2 (\<lambda>row loc. col_start row = loc ! 0 + 1 \<and> col_end row = loc ! 1
                      \<and> 0 \<le> loc ! 0 \<and> loc ! 0 \<le> loc ! 1
                      \<and> (col_start row \<le> col_end row \<longleftrightarrow> loc ! 0 < loc ! 1))
            rows (concat (map Locations (Data chunk)))
       \<and> (\<forall>row\<in>set rows. 1 \<le> col_start row \<and> col_start row \<le> col_end row + 1
            \<and> (\<exists>record\<in>set (Records batch). col_seqID row = RecordID record
                   \<and> col_end row \<le> int (length (Seq' record))))"
proof -
  from worker_total [OF assms, of pair onlyPositiveStrand orders batch]
  obtain chunk where w: "worker pair regexps onlyPositiveStrand orders batch = Inr chunk"
    and wf: "wf_chunk chunk" by blast
  from w obtain infos where
    l: "locate_records pair regexps onlyPositiveStrand orders 0 (Records batch) = Inr infos"
    and d: "Data chunk = infos"
    by (auto simp: worker_def and_then_Inr_iff)
  from locate_records_Record [OF l] d
  have recs: "\<forall>locationInfo\<in>set (Data chunk). Record locationInfo \<in> set (Records batch)"
    by auto
  let ?locs = "concat (map Locations (Data chunk))"
  from write_chunk_rows [OF wf, of pair SubSeq patterns]
  obtain rows where wr: "write_chunk pair SubSeq patterns chunk = Inr rows"
    and tr: "map (\<lambda>row. (col_strand row, col_start row, col_end row)) rows
               = concat (map (\<lambda>locationInfo.
                    map (\<lambda>loc. (Strand locationInfo, loc ! 0 + 1, loc ! 1))
                      (Locations locationInfo)) (Data chunk))"
    and p: "\<forall>row\<in>set rows. \<exists>locationInfo\<in>set (Data chunk).
                  col_seqID row = RecordID (Record locationInfo)
                  \<and> col_patternName row = PatternName locationInfo
                  \<and> 1 \<le> col_start row \<and> col_start row \<le> col_end row + 1
                  \<and> col_end row \<le> int (length (Seq' (Record locationInfo)))"
    by blast
  have "map (\<lambda>row. (col_start row, col_end row)) rows
      = map snd (map (\<lambda>row. (col_strand row, col_start row, col_end row)) rows)"
    by simp
  also have "\<dots> = map (\<lambda>loc. (loc ! 0 + 1, loc ! 1)) ?locs"
    unfolding tr by (simp add: map_concat comp_def)
  finally have "list_all2 (=) (map (\<lambda>row. (col_start row, col_end row)) rows)
      (map (\<lambda>loc. (loc ! 0 + 1, loc ! 1)) ?locs)"
    by (simp add: list.rel_eq)
  then have corr: "list_all2 (\<lambda>row loc. (col_start row, col_end row) = (loc ! 0 + 1, loc ! 1))
      rows ?locs"
    by (simp only: list_all2_map1 list_all2_map2)
  have spans: "0 \<le> loc ! 0 \<and> loc ! 0 \<le> loc ! 1" if "loc \<in> set ?locs" for loc
    using that wf by (auto simp: wf_chunk_def wf_info_def wf_loc_def span_ok_def list_all_iff)
  have a: "list_all2 (\<lambda>row loc. col_start row = loc ! 0 + 1 \<and> col_end row = loc ! 1
                      \<and> 0 \<le> loc ! 0 \<and> loc ! 0 \<le> loc ! 1
                      \<and> (col_start row \<le> col_end row \<longleftrightarrow> loc ! 0 < loc ! 1))
            rows ?locs"
    using corr
  proof (rule list.rel_mono_strong)
    fix row loc assume "loc \<in> set ?locs"
      and "(col_start row, col_end row) = (loc ! 0 + 1, loc ! 1)"
    with spans [of loc] show "col_start row = loc ! 0 + 1 \<and> col_end row = loc ! 1
                      \<and> 0 \<le> loc ! 0 \<and> loc ! 0 \<le> loc ! 1
                      \<and> (col_start row \<le> col_end row \<longleftrightarrow> loc ! 0 < loc ! 1)"
      by auto
  qed
  have b: "\<forall>row\<in>set rows. 1 \<le> col_start row \<and> col_start row \<le> col_end row + 1
            \<and> (\<exists>record\<in>set (Records batch). col_seqID row = RecordID record
                   \<and> col_end row \<le> int (length (Seq' record)))"
    using p recs by blast
  from w wr a b show ?thesis by blast
qed

theorem rows_start_end_inclusive_witness:
  "wf_regexp (\<lambda>s. if s = ''AC'' then [[0, 0], [1, 2]] else [])
   \<and> worker (\<lambda>c. c)
        [''C*'' \<mapsto> (\<lambda>s. if s = ''AC'' then [[0, 0], [1, 2]] else [])]
        True (\<lambda>i. [''C*''])
        \<lparr>ChunkID = 0, Records = [\<lparr>RecordID = ''r1'', Seq' = ''AC''\<rparr>]\<rparr>
       = Inr \<lparr>ID = 0, Data =
                [\<lparr>Record = \<lparr>RecordID = ''r1'', Seq' = ''AC''\<rparr>, PatternName = ''C*'',
                    Strand = 1, Locations = [[0, 0], [1, 2]]\<rparr>]\<rparr>
   \<and> write_chunk (\<lambda>c. c)
        (\<lambda>s start end. if end = 0 then s
           else take (nat (end - start + 1)) (drop (nat (start - 1)) s))
        [''C*'' \<mapsto> ''C*'']
        \<lparr>ID = 0, Data =
           [\<lparr>Record = \<lparr>RecordID = ''r1'', Seq' = ''AC''\<rparr>, PatternName = ''C*'',
               Strand = 1, Locations = [[0, 0], [1, 2]]\<rparr>]\<rparr>
       = Inr [\<lparr>col_seqID = ''r1'', col_patternName = ''C*'', col_pattern = ''C*'',
                 col_strand = 1, col_start = 1, col_end = 0, col_matched = []\<rparr>,
              \<lparr>col_seqID = ''r1'', col_patternName = ''C*'', col_pattern = ''C*'',
                 col_strand = 1, col_start = 2, col_end = 2, col_matched = ''C''\<rparr>]
   \<and> list_all2
        (\<lambda>row loc. col_start row = loc ! 0 + 1 \<and> col_end row = loc ! 1
           \<and> 0 \<le> loc ! 0 \<and> loc ! 0 \<le> loc ! 1
           \<and> (col_start row \<le> col_end row \<longleftrightarrow> loc ! 0 < loc ! 1))
        [\<lparr>col_seqID = ''r1'', col_patternName = ''C*'', col_pattern = ''C*'',
            col_strand = 1, col_start = 1, col_end = 0, col_matched = []\<rparr>,
         \<lparr>col_seqID = ''r1'', col_patternName = ''C*'', col_pattern = ''C*'',
            col_strand = 1, col_start = 2, col_end = 2, col_matched = ''C''\<rparr>]
        [[0, 0], [1, 2]]
   \<and> list_all
        (\<lambda>row. 1 \<le> col_start row \<and> col_start row \<le> col_end row + 1
           \<and> (\<exists>record\<in>set
                    (Records \<lparr>ChunkID = 0, Records = [\<lparr>RecordID = ''r1'', Seq' = ''AC''\<rparr>]\<rparr>).
                 col_seqID row = RecordID record
                 \<and> col_end row \<le> int (length (Seq' record))))
        [\<lparr>col_seqID = ''r1'', col_patternName = ''C*'', col_pattern = ''C*'',
            col_strand = 1, col_start = 1, col_end = 0, col_matched = []\<rparr>,
         \<lparr>col_seqID = ''r1'', col_patternName = ''C*'', col_pattern = ''C*'',
            col_strand = 1, col_start = 2, col_end = 2, col_matched = ''C''\<rparr>]"
proof -
  let ?sub = "(\<lambda>s start end. if end = 0 then s
                 else take (nat (end - start + 1)) (drop (nat (start - 1)) s))"
  let ?re = "(\<lambda>s. if s = ''AC'' then [[0, 0], [1, 2]] else [])"
  let ?batch = "\<lparr>ChunkID = 0, Records = [\<lparr>RecordID = ''r1'', Seq' = ''AC''\<rparr>]\<rparr>"
  let ?chunk = "\<lparr>ID = 0, Data =
                   [\<lparr>Record = \<lparr>RecordID = ''r1'', Seq' = ''AC''\<rparr>, PatternName = ''C*'',
                       Strand = 1, Locations = [[0, 0], [1, 2]]\<rparr>]\<rparr>"
  let ?rows = "[\<lparr>col_seqID = ''r1'', col_patternName = ''C*'', col_pattern = ''C*'',
                   col_strand = 1, col_start = 1, col_end = 0, col_matched = []\<rparr>,
                \<lparr>col_seqID = ''r1'', col_patternName = ''C*'', col_pattern = ''C*'',
                   col_strand = 1, col_start = 2, col_end = 2, col_matched = ''C''\<rparr>]"
  have g: "wf_regexp ?re"
    by (simp add: wf_regexp_def span_ok_def)
  have h1: "\<forall>re\<in>ran [''C*'' \<mapsto> ?re]. wf_regexp re"
    using g by simp
  have e1: "worker (\<lambda>c. c) [''C*'' \<mapsto> ?re] True (\<lambda>i. [''C*'']) ?batch = Inr ?chunk"
    by (simp add: worker_def locate_record_def range_regexps_def locate_pattern_def Let_def)
  have e2: "write_chunk (\<lambda>c. c) ?sub [''C*'' \<mapsto> ''C*''] ?chunk = Inr ?rows"
    by (simp add: write_chunk_def write_info_def location_row_def index_def matched_seq_def
        slice'_def)
  from rows_start_end_inclusive [OF h1,
      of "\<lambda>c. c" True "\<lambda>i. [''C*'']" ?batch ?sub "[''C*'' \<mapsto> ''C*'']"]
  obtain chunk rows where
    w: "worker (\<lambda>c. c) [''C*'' \<mapsto> ?re] True (\<lambda>i. [''C*'']) ?batch = Inr chunk"
    and wr: "write_chunk (\<lambda>c. c) ?sub [''C*'' \<mapsto> ''C*''] chunk = Inr rows"
    and p: "list_all2
        (\<lambda>row loc. col_start row = loc ! 0 + 1 \<and> col_end row = loc ! 1
           \<and> 0 \<le> loc ! 0 \<and> loc ! 0 \<le> loc ! 1
           \<and> (col_start row \<le> col_end row \<longleftrightarrow> loc ! 0 < loc ! 1))
        rows (concat (map Locations (Data chunk)))"
    and q: "\<forall>row\<in>set rows. 1 \<le> col_start row \<and> col_start row \<le> col_end row + 1
            \<and> (\<exists>record\<in>set (Records ?batch). col_seqID row = RecordID record
                   \<and> col_end row \<le> int (length (Seq' record)))"
    by blast
  from w e1 have c: "chunk = ?chunk" by simp
  from wr e2 have r: "rows = ?rows" unfolding c by simp
  from p have p': "list_all2
        (\<lambda>row loc. col_start row = loc ! 0 + 1 \<and> col_end row = loc ! 1
           \<and> 0 \<le> loc ! 0 \<and> loc ! 0 \<le> loc ! 1
           \<and> (col_start row \<le> col_end row \<longleftrightarrow> loc ! 0 < loc ! 1))
        ?rows [[0, 0], [1, 2]]"
    unfolding r c by simp
  from q have q': "list_all
        (\<lambda>row. 1 \<le> col_start row \<and> col_start row \<le> col_end row + 1
           \<and> (\<exists>record\<in>set
                    (Records \<lparr>ChunkID = 0, Records = [\<lparr>RecordID = ''r1'', Seq' = ''AC''\<rparr>]\<rparr>).
                 col_seqID row = RecordID record
                 \<and> col_end row \<le> int (length (Seq' record))))
        ?rows"
    unfolding r list_all_iff .
  from g e1 e2 p' q' show ?thesis by blast
qed

text \<open>
  C7 as stated fails: the empty pattern, which is the default value of the flag
  \<open>--pattern\<close>, matches the empty span at every offset, and the first row written for
  the sequence \<open>A\<close> has start 1 and end 0.
\<close>

theorem zero_width_match_counterexample:
  "worker (\<lambda>c. c) [[] \<mapsto> (\<lambda>s. map (\<lambda>i. [int i, int i]) [0..<Suc (length s)])]
      True (\<lambda>i. [[]]) \<lparr>ChunkID = 0, Records = [\<lparr>RecordID = ''r1'', Seq' = ''A''\<rparr>]\<rparr>
     = Inr \<lparr>ID = 0, Data =
            [\<lparr>Record = \<lparr>RecordID = ''r1'', Seq' = ''A''\<rparr>, PatternName = [],
                Strand = 1, Locations = [[0, 0], [1, 1]]\<rparr>]\<rparr>
   \<and> write_chunk (\<lambda>c. c)
        (\<lambda>s start end. if end = 0 then s
           else take (nat (end - start + 1)) (drop (nat (start - 1)) s))
        [[] \<mapsto> []]
      \<lparr>ID = 0, Data =
         [\<lparr>Record = \<lparr>RecordID = ''r1'', Seq' = ''A''\<rparr>, PatternName = [],
             Strand = 1, Locations = [[0, 0], [1, 1]]\<rparr>]\<rparr>
     = Inr [\<lparr>col_seqID = ''r1'', col_patternName = [], col_pattern = [],
               col_strand = 1, col_start = 1, col_end = 0, col_matched = []\<rparr>,
            \<lparr>col_seqID = ''r1'', col_patternName = [], col_pattern = [],
               col_strand = 1, col_start = 2, col_end = 1, col_matched = []\<rparr>]
   \<and> \<not> col_start \<lparr>col_seqID = ''r1'', col_patternName = [], col_pattern = [],
                    col_strand = 1, col_start = 1, col_end = 0, col_matched = []\<rparr>
       \<le> col_end \<lparr>col_seqID = ''r1'', col_patternName = [], col_pattern = [],
                    col_strand = 1, col_start = 1, col_end = 0, col_matched = []\<rparr>"
  by (simp add: worker_def locate_record_def range_regexps_def locate_pattern_def
      write_chunk_def write_info_def location_row_def index_def matched_seq_def slice'_def)

text \<open>
  C8. Order of the matches of one record: the entries that a worker appends for one record
  are ordered by the position of their pattern in the order in which the \<open>range\<close>
  statement visits the patterns, and the two entries of one pattern are the forward
  strand first and the reverse strand second.
\<close>

theorem matches_ordered_by_pattern_then_strand:
  assumes "\<forall>re\<in>ran regexps. wf_regexp re" and "distinct order"
  shows "\<exists>infos. locate_record pair regexps onlyPositiveStrand order record = Inr infos
           \<and> sorted_wrt (pattern_then_strand order) infos"
proof -
  from locate_record_total [OF assms(1), of pair onlyPositiveStrand order "record"]
  obtain infos where l: "locate_record pair regexps onlyPositiveStrand order record = Inr infos"
    by blast
  from locate_record_Inr [OF l] obtain groups where
    t: "traverse (locate_pattern pair onlyPositiveStrand record) (range_regexps regexps order)
          = Inr groups" and e: "infos = concat groups" by blast
  from traverse_sorted [OF assms(2) t] e l show ?thesis by blast
qed

theorem matches_ordered_by_pattern_then_strand_witness:
  "wf_regexp (\<lambda>s. if s = ''AACG'' then [[0, 2]] else [])
   \<and> wf_regexp (\<lambda>s. if s = ''AACG'' then [[2, 4]] else if s = ''CGTT'' then [[0, 2]] else [])
   \<and> distinct [''CG'', ''AA'']
   \<and> locate_record (\<lambda>c. case map_of (zip ''ACGT'' ''TGCA'') c of None \<Rightarrow> c | Some d \<Rightarrow> d)
        [''AA'' \<mapsto> (\<lambda>s. if s = ''AACG'' then [[0, 2]] else []),
         ''CG'' \<mapsto> (\<lambda>s. if s = ''AACG'' then [[2, 4]] else if s = ''CGTT'' then [[0, 2]] else [])]
        False [''CG'', ''AA''] \<lparr>RecordID = ''r1'', Seq' = ''AACG''\<rparr>
       = Inr [\<lparr>Record = \<lparr>RecordID = ''r1'', Seq' = ''AACG''\<rparr>, PatternName = ''CG'',
                 Strand = 1, Locations = [[2, 4]]\<rparr>,
              \<lparr>Record = \<lparr>RecordID = ''r1'', Seq' = ''AACG''\<rparr>, PatternName = ''CG'',
                 Strand = - 1, Locations = [[2, 4]]\<rparr>,
              \<lparr>Record = \<lparr>RecordID = ''r1'', Seq' = ''AACG''\<rparr>, PatternName = ''AA'',
                 Strand = 1, Locations = [[0, 2]]\<rparr>]
   \<and> sorted_wrt (pattern_then_strand [''CG'', ''AA''])
        [\<lparr>Record = \<lparr>RecordID = ''r1'', Seq' = ''AACG''\<rparr>, PatternName = ''CG'',
            Strand = 1, Locations = [[2, 4]]\<rparr>,
         \<lparr>Record = \<lparr>RecordID = ''r1'', Seq' = ''AACG''\<rparr>, PatternName = ''CG'',
            Strand = - 1, Locations = [[2, 4]]\<rparr>,
         \<lparr>Record = \<lparr>RecordID = ''r1'', Seq' = ''AACG''\<rparr>, PatternName = ''AA'',
            Strand = 1, Locations = [[0, 2]]\<rparr>]"
proof -
  let ?aa = "(\<lambda>s. if s = ''AACG'' then [[0, 2]] else [])"
  let ?cg = "(\<lambda>s. if s = ''AACG'' then [[2, 4]] else if s = ''CGTT'' then [[0, 2]] else [])"
  let ?dna = "(\<lambda>c. case map_of (zip ''ACGT'' ''TGCA'') c of None \<Rightarrow> c | Some d \<Rightarrow> d)"
  let ?r = "\<lparr>RecordID = ''r1'', Seq' = ''AACG''\<rparr>"
  let ?infos = "[\<lparr>Record = \<lparr>RecordID = ''r1'', Seq' = ''AACG''\<rparr>, PatternName = ''CG'',
                    Strand = 1, Locations = [[2, 4]]\<rparr>,
                 \<lparr>Record = \<lparr>RecordID = ''r1'', Seq' = ''AACG''\<rparr>, PatternName = ''CG'',
                    Strand = - 1, Locations = [[2, 4]]\<rparr>,
                 \<lparr>Record = \<lparr>RecordID = ''r1'', Seq' = ''AACG''\<rparr>, PatternName = ''AA'',
                    Strand = 1, Locations = [[0, 2]]\<rparr>]"
  have g: "wf_regexp ?aa" "wf_regexp ?cg"
    by (simp_all add: wf_regexp_def span_ok_def)
  have h1: "\<forall>re\<in>ran [''AA'' \<mapsto> ?aa, ''CG'' \<mapsto> ?cg]. wf_regexp re"
    using g by simp
  have h2: "distinct [''CG'', ''AA'']" by simp
  have e: "locate_record ?dna [''AA'' \<mapsto> ?aa, ''CG'' \<mapsto> ?cg] False [''CG'', ''AA''] ?r
      = Inr ?infos"
    by (simp add: locate_record_def range_regexps_def locate_pattern_def
        RevCom_def translate_def index_def Let_def)
  from matches_ordered_by_pattern_then_strand [OF h1 h2, of ?dna False ?r]
  obtain infos where
    l: "locate_record ?dna [''AA'' \<mapsto> ?aa, ''CG'' \<mapsto> ?cg] False [''CG'', ''AA''] ?r
      = Inr infos"
    and s: "sorted_wrt (pattern_then_strand [''CG'', ''AA'']) infos"
    by blast
  from l e have "infos = ?infos" by simp
  with s g h2 e show ?thesis by simp
qed

text \<open>
  C9 does not hold of the command for the empty match at the end of the reverse
  complement. For a record whose sequence has length \<open>L\<close>, this match \<open>[L, L)\<close> is stored
  as \<open>[0, 0)\<close>, and the receiver asks the library for \<open>SubSeq(1, 0)\<close>. The library
  reads an end of 0 as the last base and returns the whole sequence, which is the
  hypothesis on \<open>SubSeq\<close>; so the row has start 1, end 0 and the whole reverse complement
  as its text, where the slice \<open>[L, L)\<close> of the reverse complement is empty.
\<close>

theorem reverse_strand_empty_match_at_end:
  assumes "SubSeq (Seq' record) 1 0 = Seq' record"
    and "Record locationInfo = record" and "Strand locationInfo = - 1"
  shows "translate (int (length (RevCom pair (Seq' record))))
             [int (length (Seq' record)), int (length (Seq' record))]
           = Inr [0, 0]
       \<and> matched_seq pair SubSeq locationInfo 0 0 = Inr (RevCom pair (Seq' record))
       \<and> location_row pair SubSeq patterns locationInfo [0, 0]
           = Inr \<lparr>col_seqID = RecordID record,
                  col_patternName = PatternName locationInfo,
                  col_pattern = (case patterns (PatternName locationInfo) of
                                   None \<Rightarrow> [] | Some p \<Rightarrow> p),
                  col_strand = - 1, col_start = 1, col_end = 0,
                  col_matched = RevCom pair (Seq' record)\<rparr>
       \<and> slice' (RevCom pair (Seq' record)) (int (length (Seq' record)))
             (int (length (Seq' record)))
           = Inr []
       \<and> (Seq' record \<noteq> [] \<longrightarrow>
            matched_seq pair SubSeq locationInfo 0 0
              \<noteq> slice' (RevCom pair (Seq' record)) (int (length (Seq' record)))
                  (int (length (Seq' record))))"
  using assms
  by (simp add: translate_def index_def length_RevCom matched_seq_def slice'_def RevCom_def
      location_row_def)

theorem reverse_strand_empty_match_at_end_witness:
  "(\<lambda>s start end. if end = 0 then s
      else take (nat (end - start + 1)) (drop (nat (start - 1)) s))
      (Seq' \<lparr>RecordID = ''r1'', Seq' = ''AACG''\<rparr>) 1 0
     = Seq' \<lparr>RecordID = ''r1'', Seq' = ''AACG''\<rparr>
   \<and> Record \<lparr>Record = \<lparr>RecordID = ''r1'', Seq' = ''AACG''\<rparr>, PatternName = [],
               Strand = - 1, Locations = [[4, 4], [3, 3], [2, 2], [1, 1], [0, 0]]\<rparr>
       = \<lparr>RecordID = ''r1'', Seq' = ''AACG''\<rparr>
   \<and> Strand \<lparr>Record = \<lparr>RecordID = ''r1'', Seq' = ''AACG''\<rparr>, PatternName = [],
               Strand = - 1, Locations = [[4, 4], [3, 3], [2, 2], [1, 1], [0, 0]]\<rparr>
       = - 1
   \<and> translate
        (int (length
           (RevCom (\<lambda>c. case map_of (zip ''ACGT'' ''TGCA'') c of None \<Rightarrow> c | Some d \<Rightarrow> d)
              (Seq' \<lparr>RecordID = ''r1'', Seq' = ''AACG''\<rparr>))))
        [4, 4]
       = Inr [0, 0]
   \<and> matched_seq (\<lambda>c. case map_of (zip ''ACGT'' ''TGCA'') c of None \<Rightarrow> c | Some d \<Rightarrow> d)
        (\<lambda>s start end. if end = 0 then s
           else take (nat (end - start + 1)) (drop (nat (start - 1)) s))
        \<lparr>Record = \<lparr>RecordID = ''r1'', Seq' = ''AACG''\<rparr>, PatternName = [],
           Strand = - 1, Locations = [[4, 4], [3, 3], [2, 2], [1, 1], [0, 0]]\<rparr>
        0 0
       = Inr ''CGTT''
   \<and> location_row (\<lambda>c. case map_of (zip ''ACGT'' ''TGCA'') c of None \<Rightarrow> c | Some d \<Rightarrow> d)
        (\<lambda>s start end. if end = 0 then s
           else take (nat (end - start + 1)) (drop (nat (start - 1)) s))
        [[] \<mapsto> []]
        \<lparr>Record = \<lparr>RecordID = ''r1'', Seq' = ''AACG''\<rparr>, PatternName = [],
           Strand = - 1, Locations = [[4, 4], [3, 3], [2, 2], [1, 1], [0, 0]]\<rparr>
        [0, 0]
       = Inr \<lparr>col_seqID = ''r1'', col_patternName = [], col_pattern = [],
                col_strand = - 1, col_start = 1, col_end = 0, col_matched = ''CGTT''\<rparr>
   \<and> slice' (RevCom (\<lambda>c. case map_of (zip ''ACGT'' ''TGCA'') c of None \<Rightarrow> c | Some d \<Rightarrow> d)
                (Seq' \<lparr>RecordID = ''r1'', Seq' = ''AACG''\<rparr>)) 4 4
       = Inr []"
proof -
  let ?sub = "(\<lambda>s start end. if end = 0 then s
                 else take (nat (end - start + 1)) (drop (nat (start - 1)) s))"
  let ?dna = "(\<lambda>c. case map_of (zip ''ACGT'' ''TGCA'') c of None \<Rightarrow> c | Some d \<Rightarrow> d)"
  let ?r = "\<lparr>RecordID = ''r1'', Seq' = ''AACG''\<rparr>"
  let ?info = "\<lparr>Record = ?r, PatternName = [], Strand = - 1,
    Locations = [[4, 4], [3, 3], [2, 2], [1, 1], [0, 0]]\<rparr>"
  have h: "?sub (Seq' ?r) 1 0 = Seq' ?r" "Record ?info = ?r" "Strand ?info = - 1"
    by simp_all
  from reverse_strand_empty_match_at_end [of ?sub ?r ?info ?dna "[[] \<mapsto> []]"] h
  show ?thesis by (simp add: RevCom_def)
qed

text \<open>
  C10. Precedence of the pattern file: when a pattern file is given, the result of the
  preparation does not depend on the explicit list of patterns; the keys of both maps
  are the names of the records of the file, and a listed pattern that is not such a name
  has no entry in either map.
\<close>

theorem pattern_file_takes_precedence:
  assumes "patternFile \<noteq> []"
  shows "prepare lib pattern patternFile degenerate ignoreCase
           = prepare lib [] patternFile degenerate ignoreCase
       \<and> (\<forall>records regexps patterns.
             GetSeqsMap lib patternFile = Inr records
             \<and> prepare lib pattern patternFile degenerate ignoreCase = Inr (regexps, patterns)
             \<longrightarrow> dom regexps = fst ` set records \<and> dom patterns = fst ` set records
                 \<and> (\<forall>p\<in>set pattern. p \<notin> fst ` set records
                        \<longrightarrow> regexps p = None \<and> patterns p = None))"
proof -
  have eq: "prepare lib pattern patternFile degenerate ignoreCase
           = prepare lib [] patternFile degenerate ignoreCase"
    using assms by (simp add: prepare_def)
  have "dom regexps = fst ` set records \<and> dom patterns = fst ` set records
                 \<and> (\<forall>p\<in>set pattern. p \<notin> fst ` set records
                        \<longrightarrow> regexps p = None \<and> patterns p = None)"
    if g: "GetSeqsMap lib patternFile = Inr records"
      and p: "prepare lib pattern patternFile degenerate ignoreCase = Inr (regexps, patterns)"
    for records regexps patterns
  proof -
    from p g assms have "from_file lib degenerate ignoreCase (Map.empty, Map.empty) records
        = Inr (regexps, patterns)"
      by (simp add: prepare_def)
    from from_file_dom [OF this] have d: "dom regexps = fst ` set records"
      "dom patterns = fst ` set records" by simp_all
    then show ?thesis by (metis domIff)
  qed
  with eq show ?thesis by blast
qed

theorem pattern_file_takes_precedence_witness:
  "''motifs.fa'' \<noteq> []
   \<and> prepare
        \<lparr>GetSeqsMap = (\<lambda>file. Inr [(''m1'', \<lparr>RecordID = ''m1'', Seq' = ''CG''\<rparr>)]),
           NewSeq = Inr, Degenerate2Regexp = (\<lambda>s. s), Compile = (\<lambda>s. Inr (\<lambda>t. []))\<rparr>
        [''AA''] ''motifs.fa'' False False
       = prepare
           \<lparr>GetSeqsMap = (\<lambda>file. Inr [(''m1'', \<lparr>RecordID = ''m1'', Seq' = ''CG''\<rparr>)]),
              NewSeq = Inr, Degenerate2Regexp = (\<lambda>s. s), Compile = (\<lambda>s. Inr (\<lambda>t. []))\<rparr>
           [] ''motifs.fa'' False False
   \<and> GetSeqsMap
        \<lparr>GetSeqsMap = (\<lambda>file. Inr [(''m1'', \<lparr>RecordID = ''m1'', Seq' = ''CG''\<rparr>)]),
           NewSeq = Inr, Degenerate2Regexp = (\<lambda>s. s), Compile = (\<lambda>s. Inr (\<lambda>t. []))\<rparr>
        ''motifs.fa''
       = Inr [(''m1'', \<lparr>RecordID = ''m1'', Seq' = ''CG''\<rparr>)]
   \<and> prepare
        \<lparr>GetSeqsMap = (\<lambda>file. Inr [(''m1'', \<lparr>RecordID = ''m1'', Seq' = ''CG''\<rparr>)]),
           NewSeq = Inr, Degenerate2Regexp = (\<lambda>s. s), Compile = (\<lambda>s. Inr (\<lambda>t. []))\<rparr>
        [''AA''] ''motifs.fa'' False False
       = Inr ([''m1'' \<mapsto> (\<lambda>t. [])], [''m1'' \<mapsto> ''CG''])
   \<and> dom [''m1'' \<mapsto> (\<lambda>t :: string. [] :: int list list)]
       = fst ` set [(''m1'', \<lparr>RecordID = ''m1'', Seq' = ''CG''\<rparr>)]
   \<and> dom [''m1'' \<mapsto> ''CG''] = fst ` set [(''m1'', \<lparr>RecordID = ''m1'', Seq' = ''CG''\<rparr>)]
   \<and> ''AA'' \<in> set [''AA'']
   \<and> ''AA'' \<notin> fst ` set [(''m1'', \<lparr>RecordID = ''m1'', Seq' = ''CG''\<rparr>)]
   \<and> [''m1'' \<mapsto> (\<lambda>t :: string. [] :: int list list)] ''AA'' = None
   \<and> [''m1'' \<mapsto> ''CG''] ''AA'' = None"
proof -
  let ?lib = "\<lparr>GetSeqsMap = (\<lambda>file. Inr [(''m1'', \<lparr>RecordID = ''m1'', Seq' = ''CG''\<rparr>)]),
                 NewSeq = Inr, Degenerate2Regexp = (\<lambda>s. s), Compile = (\<lambda>s. Inr (\<lambda>t. []))\<rparr>"
  let ?records = "[(''m1'', \<lparr>RecordID = ''m1'', Seq' = ''CG''\<rparr>)]"
  let ?regexps = "[''m1'' \<mapsto> (\<lambda>t :: string. [] :: int list list)]"
  have h: "''motifs.fa'' \<noteq> []" by simp
  have g: "GetSeqsMap ?lib ''motifs.fa'' = Inr ?records"
    by simp
  have e: "prepare ?lib [''AA''] ''motifs.fa'' False False
       = Inr ([''m1'' \<mapsto> (\<lambda>t. [])], [''m1'' \<mapsto> ''CG''])"
    by (simp add: prepare_def compile_pattern_def)
  have a: "''AA'' \<in> set [''AA'']" "''AA'' \<notin> fst ` set ?records"
    by simp_all
  note t = pattern_file_takes_precedence [OF h, of ?lib "[''AA'']" False False]
  from t have eq: "prepare ?lib [''AA''] ''motifs.fa'' False False
       = prepare ?lib [] ''motifs.fa'' False False"
    by (rule conjunct1)
  from t g e have d: "dom ?regexps = fst ` set ?records
     \<and> dom [''m1'' \<mapsto> ''CG''] = fst ` set ?records
     \<and> (\<forall>p\<in>set [''AA'']. p \<notin> fst ` set ?records
            \<longrightarrow> ?regexps p = None \<and> [''m1'' \<mapsto> ''CG''] p = None)"
    by blast
  with a have "?regexps ''AA'' = None \<and> [''m1'' \<mapsto> ''CG''] ''AA'' = None"
    by blast
  with h eq g e d a show ?thesis by blast
qed

end
